theory Spec2Isabelle
  imports Main "HOL-Library.AList"
begin

section \<open>Python values used by the scripts\<close>

text \<open>
  The repository is one file, \<^verbatim>\<open>sih.py\<close>, holding four successive timetabling scripts
  (called v1 to v4 below, in file order). Each script has a data section, builds a CP-SAT
  model through the OR-tools API, calls the solver and prints the solution. Exceptions
  raised by the Python are values of \<open>error\<close>; a computation that may raise has type
  \<open>error + 'a\<close>.
\<close>

datatype error =
    KeyError | ValueError | IndexError | ZeroDivisionError | ArithmeticError | TypeError

text \<open>Sequencing: the first exception aborts the script.\<close>

definition and_then :: "error + 'a \<Rightarrow> ('a \<Rightarrow> error + 'b) \<Rightarrow> error + 'b" where
  "and_then m k = (case m of Inl e \<Rightarrow> Inl e | Inr v \<Rightarrow> k v)"

text \<open>A \<^verbatim>\<open>for\<close> loop whose body may raise, collecting what each iteration produces.\<close>

fun traverse :: "('a \<Rightarrow> error + 'b) \<Rightarrow> 'a list \<Rightarrow> error + 'b list" where
  "traverse f [] = Inr []"
| "traverse f (a # as) =
     and_then (f a) (\<lambda>b. and_then (traverse f as) (\<lambda>bs. Inr (b # bs)))"

text \<open>
  A \<^verbatim>\<open>dict\<close> is represented by an association list read with \<open>map_of\<close>: the first
  binding of a key is the one the dict holds. \<^verbatim>\<open>d[k]\<close> raises \<^verbatim>\<open>KeyError\<close> on a
  missing key.
\<close>

type_synonym ('k, 'v) dict = "('k \<times> 'v) list"

definition lookup :: "('k, 'v) dict \<Rightarrow> 'k \<Rightarrow> error + 'v" where
  "lookup d k = (case map_of d k of None \<Rightarrow> Inl KeyError | Some v \<Rightarrow> Inr v)"

text \<open>\<^verbatim>\<open>set(d.values())\<close>, each value once; bindings shadowed by an earlier one are no values.\<close>

definition dict_values :: "('k, 'v) dict \<Rightarrow> 'v list" where
  "dict_values d = remdups (map snd (AList.clearjunk d))"

text \<open>\<^verbatim>\<open>xs.index(v)\<close>: the first position of \<open>v\<close>, \<^verbatim>\<open>ValueError\<close> if there is none.\<close>

fun index :: "'a list \<Rightarrow> 'a \<Rightarrow> error + nat" where
  "index [] v = Inl ValueError"
| "index (a # as) v =
     (if a = v then Inr 0 else and_then (index as v) (\<lambda>n. Inr (Suc n)))"

section \<open>The data section\<close>

text \<open>
  The fields are the names bound by the data sections. \<open>faculty_unavailability\<close> is bound
  by v1, v2 and v3 only, \<open>course_min_lectures\<close> by v3 and v4 only; a script reads the
  fields it binds and no other.
\<close>

record problem =
  days :: int
  slots_per_day :: int
  rooms :: "string list"
  courses :: "string list"
  faculty :: "(string, string) dict"
  shared_students :: "(string \<times> string) list"
  faculty_unavailability :: "(string, int list) dict"
  course_min_lectures :: "(string, int) dict"

definition total_slots :: "problem \<Rightarrow> int" where
  "total_slots P = days P * slots_per_day P"

text \<open>\<^verbatim>\<open>range(n)\<close> is empty for \<open>n \<le> 0\<close>; its members are never negative.\<close>

definition room_indices :: "problem \<Rightarrow> nat list" where
  "room_indices P = [0..<length (rooms P)]"

definition course_indices :: "problem \<Rightarrow> nat list" where
  "course_indices P = [0..<length (courses P)]"

definition time_slots :: "problem \<Rightarrow> nat list" where
  "time_slots P = [0..<nat (total_slots P)]"

section \<open>The CP-SAT model built by v2, v3 and v4\<close>

text \<open>
  The Boolean variable \<^verbatim>\<open>x[c, t, r]\<close> is the key \<open>(c, t, r)\<close>. The constraints are the
  four forms the scripts add: \<^verbatim>\<open>AddAtMostOne(lits)\<close>, \<^verbatim>\<open>Add(x == 0)\<close>,
  \<^verbatim>\<open>Add(sum(lits) >= k)\<close> and \<^verbatim>\<open>Add(sum(lits) <= k)\<close>.
\<close>

type_synonym var = "nat \<times> nat \<times> nat"

datatype constr =
    AtMostOne "var list"
  | EqZero var
  | SumGe "var list" int
  | SumLe "var list" int

type_synonym assignment = "var \<Rightarrow> bool"

definition lin_val :: "assignment \<Rightarrow> var list \<Rightarrow> int" where
  "lin_val x vs = int (length (filter x vs))"

fun holds :: "assignment \<Rightarrow> constr \<Rightarrow> bool" where
  "holds x (AtMostOne vs) = (lin_val x vs \<le> 1)"
| "holds x (EqZero v) = (\<not> x v)"
| "holds x (SumGe vs k) = (k \<le> lin_val x vs)"
| "holds x (SumLe vs k) = (lin_val x vs \<le> k)"

definition satisfies :: "assignment \<Rightarrow> constr list \<Rightarrow> bool" where
  "satisfies x cs = list_all (holds x) cs"

text \<open>
  A solved assignment of a script is an assignment that satisfies every constraint of the
  model the script builds; a script whose model construction raises has none.
\<close>

definition solution_of :: "error + constr list \<Rightarrow> assignment \<Rightarrow> bool" where
  "solution_of m x = (case m of Inl e \<Rightarrow> False | Inr cs \<Rightarrow> satisfies x cs)"

subsection \<open>Constraints shared by the three scripts\<close>

text \<open>\<^verbatim>\<open>x[c, t, r]\<close> with \<open>t\<close> any integer: the dict \<^verbatim>\<open>x\<close> has the in-range keys only.\<close>

definition x_key :: "problem \<Rightarrow> nat \<Rightarrow> int \<Rightarrow> nat \<Rightarrow> error + var" where
  "x_key P c t r =
     (if 0 \<le> t \<and> t < total_slots P then Inr (c, nat t, r) else Inl KeyError)"

text \<open>Only one course per room at each time slot.\<close>

definition room_exclusivity :: "problem \<Rightarrow> constr list" where
  "room_exclusivity P =
     [AtMostOne [(c, t, r). c \<leftarrow> course_indices P].
        t \<leftarrow> time_slots P, r \<leftarrow> room_indices P]"

text \<open>A course can't be in two rooms at the same time.\<close>

definition single_room :: "problem \<Rightarrow> constr list" where
  "single_room P =
     [AtMostOne [(c, t, r). r \<leftarrow> room_indices P].
        c \<leftarrow> course_indices P, t \<leftarrow> time_slots P]"

text \<open>
  Faculty cannot be in more than one place at the same time. The list comprehension
  evaluates \<^verbatim>\<open>faculty[courses[c]]\<close> for every course index, in order.
\<close>

definition course_faculty :: "problem \<Rightarrow> nat \<Rightarrow> error + string" where
  "course_faculty P c = lookup (faculty P) (courses P ! c)"

definition relevant_courses :: "problem \<Rightarrow> string \<Rightarrow> error + nat list" where
  "relevant_courses P f =
     and_then (traverse (course_faculty P) (course_indices P))
       (\<lambda>fs. Inr [c \<leftarrow> course_indices P. fs ! c = f])"

definition faculty_exclusivity :: "problem \<Rightarrow> error + constr list" where
  "faculty_exclusivity P =
     traverse
       (\<lambda>(t, f). and_then (relevant_courses P f)
          (\<lambda>rc. Inr (AtMostOne [(c, t, r). c \<leftarrow> rc, r \<leftarrow> room_indices P])))
       [(t, f). t \<leftarrow> time_slots P, f \<leftarrow> dict_values (faculty P)]"

text \<open>Shared students: no overlap.\<close>

definition shared_pair :: "problem \<Rightarrow> string \<times> string \<Rightarrow> error + constr list" where
  "shared_pair P pair =
     and_then (index (courses P) (fst pair)) (\<lambda>i.
     and_then (index (courses P) (snd pair)) (\<lambda>j.
       Inr [SumLe ([(i, t, r1). r1 \<leftarrow> room_indices P] @ [(j, t, r2). r2 \<leftarrow> room_indices P]) 1.
              t \<leftarrow> time_slots P]))"

definition shared_students_overlap :: "problem \<Rightarrow> error + constr list" where
  "shared_students_overlap P =
     and_then (traverse (shared_pair P) (shared_students P)) (\<lambda>css. Inr (concat css))"

text \<open>
  Each course must be scheduled multiple times per week (v3 and v4). The quota is the one
  constant of the model that comes from the data section. OR-tools keeps constants as
  64-bit integers, and its comparison \<^verbatim>\<open>expr >= k\<close> raises for a constant \<open>k\<close> it does not
  accept; which constants those are, and with which exception, differs between releases of
  the library, so the check is a parameter \<open>ge_check\<close> of the model: \<open>ge_check k\<close> is the
  exception raised for \<open>k\<close>, if any. With no slot or no room the sum is the Python integer
  \<open>0\<close>, the comparison is one of Python integers and nothing is checked.
\<close>

type_synonym constant_check = "int \<Rightarrow> error option"

definition sum_ge :: "constant_check \<Rightarrow> var list \<Rightarrow> int \<Rightarrow> error + constr" where
  "sum_ge ge_check vs k =
     (if vs = [] then Inr (SumGe vs k)
      else case ge_check k of Some e \<Rightarrow> Inl e | None \<Rightarrow> Inr (SumGe vs k))"

definition min_lectures :: "constant_check \<Rightarrow> problem \<Rightarrow> error + constr list" where
  "min_lectures ge_check P =
     traverse
       (\<lambda>c. and_then (lookup (course_min_lectures P) (courses P ! c))
          (\<lambda>m. sum_ge ge_check [(c, t, r). t \<leftarrow> time_slots P, r \<leftarrow> room_indices P] m))
       (course_indices P)"

text \<open>
  One such check, used in the examples: a constant outside the 64-bit range is refused
  with \<^verbatim>\<open>TypeError\<close>, and the largest 64-bit constant with \<^verbatim>\<open>ArithmeticError\<close>.
\<close>

definition int64_ge_check :: constant_check where
  "int64_ge_check k =
     (if k < - (2 ^ 63) \<or> 2 ^ 63 - 1 < k then Some TypeError
      else if k = 2 ^ 63 - 1 then Some ArithmeticError
      else None)"

text \<open>Faculty unavailability (v2 and v3).\<close>

definition unavailability_of :: "problem \<Rightarrow> nat \<Rightarrow> error + constr list" where
  "unavailability_of P c =
     and_then (course_faculty P c) (\<lambda>f_name.
       case map_of (faculty_unavailability P) f_name of
         None \<Rightarrow> Inr []
       | Some ts \<Rightarrow>
           traverse (\<lambda>(t, r). and_then (x_key P c t r) (\<lambda>v. Inr (EqZero v)))
             [(t, r). t \<leftarrow> ts, r \<leftarrow> room_indices P])"

definition unavailability :: "problem \<Rightarrow> error + constr list" where
  "unavailability P =
     and_then (traverse (unavailability_of P) (course_indices P)) (\<lambda>css. Inr (concat css))"

text \<open>Each time slot must be used (v2 only).\<close>

definition every_slot_used :: "problem \<Rightarrow> constr list" where
  "every_slot_used P =
     [SumGe [(c, t, r). c \<leftarrow> course_indices P, r \<leftarrow> room_indices P] 1.
        t \<leftarrow> time_slots P]"

subsection \<open>The three models, constraints in the order the scripts add them\<close>

definition v2_model :: "problem \<Rightarrow> error + constr list" where
  "v2_model P =
     and_then (faculty_exclusivity P) (\<lambda>fe.
     and_then (unavailability P) (\<lambda>un.
     and_then (shared_students_overlap P) (\<lambda>sh.
       Inr (room_exclusivity P @ every_slot_used P @ single_room P @ fe @ un @ sh))))"

definition v3_model :: "constant_check \<Rightarrow> problem \<Rightarrow> error + constr list" where
  "v3_model ge_check P =
     and_then (faculty_exclusivity P) (\<lambda>fe.
     and_then (unavailability P) (\<lambda>un.
     and_then (shared_students_overlap P) (\<lambda>sh.
     and_then (min_lectures ge_check P) (\<lambda>ml.
       Inr (room_exclusivity P @ single_room P @ fe @ un @ sh @ ml)))))"

definition v4_model :: "constant_check \<Rightarrow> problem \<Rightarrow> error + constr list" where
  "v4_model ge_check P =
     and_then (faculty_exclusivity P) (\<lambda>fe.
     and_then (shared_students_overlap P) (\<lambda>sh.
     and_then (min_lectures ge_check P) (\<lambda>ml.
       Inr (room_exclusivity P @ single_room P @ fe @ sh @ ml))))"

section \<open>The model built by v1\<close>

text \<open>
  v1 schedules every course exactly once: an integer variable \<^verbatim>\<open>course_time[c]\<close> in
  \<open>[0, total_slots - 1]\<close>, an integer variable \<^verbatim>\<open>course_room[c]\<close> in
  \<open>[0, len(rooms) - 1]\<close>, and one Boolean \<^verbatim>\<open>same_room_i_j\<close> for each pair \<open>i < j\<close>.
  A constraint is a linear equality or disequality, enforced always or only if a literal
  is true (\<^verbatim>\<open>OnlyEnforceIf\<close>).
\<close>

datatype int_var = Course_time nat | Course_room nat

datatype literal = Same_room nat nat | Not_same_room nat nat

datatype v1_constr =
    In_domain int_var int int
  | Equal int_var int_var "literal option"
  | Differ int_var int_var "literal option"
  | Differ_const int_var int

record v1_values =
  course_time :: "nat \<Rightarrow> int"
  course_room :: "nat \<Rightarrow> int"
  same_room :: "nat \<Rightarrow> nat \<Rightarrow> bool"

fun var_value :: "v1_values \<Rightarrow> int_var \<Rightarrow> int" where
  "var_value s (Course_time c) = course_time s c"
| "var_value s (Course_room c) = course_room s c"

fun enforced :: "v1_values \<Rightarrow> literal option \<Rightarrow> bool" where
  "enforced s None = True"
| "enforced s (Some (Same_room i j)) = same_room s i j"
| "enforced s (Some (Not_same_room i j)) = (\<not> same_room s i j)"

fun v1_holds :: "v1_values \<Rightarrow> v1_constr \<Rightarrow> bool" where
  "v1_holds s (In_domain v lo hi) = (lo \<le> var_value s v \<and> var_value s v \<le> hi)"
| "v1_holds s (Equal a b l) = (enforced s l \<longrightarrow> var_value s a = var_value s b)"
| "v1_holds s (Differ a b l) = (enforced s l \<longrightarrow> var_value s a \<noteq> var_value s b)"
| "v1_holds s (Differ_const a k) = (var_value s a \<noteq> k)"

definition v1_variables :: "problem \<Rightarrow> v1_constr list" where
  "v1_variables P =
     concat [[In_domain (Course_time c) 0 (total_slots P - 1),
              In_domain (Course_room c) 0 (int (length (rooms P)) - 1)].
             c \<leftarrow> course_indices P]"

definition v1_same_room :: "problem \<Rightarrow> v1_constr list" where
  "v1_same_room P =
     concat [[Equal (Course_room i) (Course_room j) (Some (Same_room i j)),
              Differ (Course_room i) (Course_room j) (Some (Not_same_room i j)),
              Differ (Course_time i) (Course_time j) (Some (Same_room i j))].
             i \<leftarrow> course_indices P, j \<leftarrow> course_indices P, i < j]"

definition v1_double_booking_of :: "problem \<Rightarrow> nat \<times> nat \<Rightarrow> error + v1_constr list" where
  "v1_double_booking_of P ij =
     (if fst ij < snd ij then
        and_then (course_faculty P (fst ij)) (\<lambda>fi.
        and_then (course_faculty P (snd ij)) (\<lambda>fj.
          Inr (if fi = fj then [Differ (Course_time (fst ij)) (Course_time (snd ij)) None]
               else [])))
      else Inr [])"

definition v1_double_booking :: "problem \<Rightarrow> error + v1_constr list" where
  "v1_double_booking P =
     and_then (traverse (v1_double_booking_of P)
                 [(i, j). i \<leftarrow> course_indices P, j \<leftarrow> course_indices P])
       (\<lambda>css. Inr (concat css))"

definition v1_unavailable_of :: "problem \<Rightarrow> nat \<Rightarrow> error + v1_constr list" where
  "v1_unavailable_of P i =
     and_then (course_faculty P i) (\<lambda>f_name.
       case map_of (faculty_unavailability P) f_name of
         None \<Rightarrow> Inr []
       | Some ts \<Rightarrow> Inr [Differ_const (Course_time i) slot. slot \<leftarrow> ts])"

definition v1_unavailable :: "problem \<Rightarrow> error + v1_constr list" where
  "v1_unavailable P =
     and_then (traverse (v1_unavailable_of P) (course_indices P)) (\<lambda>css. Inr (concat css))"

definition v1_shared_pair :: "problem \<Rightarrow> string \<times> string \<Rightarrow> error + v1_constr" where
  "v1_shared_pair P pair =
     and_then (index (courses P) (fst pair)) (\<lambda>i.
     and_then (index (courses P) (snd pair)) (\<lambda>j.
       Inr (Differ (Course_time i) (Course_time j) None)))"

definition v1_model :: "problem \<Rightarrow> error + v1_constr list" where
  "v1_model P =
     and_then (v1_double_booking P) (\<lambda>db.
     and_then (v1_unavailable P) (\<lambda>un.
     and_then (traverse (v1_shared_pair P) (shared_students P)) (\<lambda>sh.
       Inr (v1_variables P @ v1_same_room P @ db @ un @ sh))))"

definition v1_solution_of :: "error + v1_constr list \<Rightarrow> v1_values \<Rightarrow> bool" where
  "v1_solution_of m s = (case m of Inl e \<Rightarrow> False | Inr cs \<Rightarrow> list_all (v1_holds s) cs)"

definition v1_grid :: "v1_values \<Rightarrow> assignment" where
  "v1_grid s = (\<lambda>(c, t, r). course_time s c = int t \<and> course_room s c = int r)"

section \<open>Printing the solution\<close>

text \<open>
  \<^verbatim>\<open>a // b\<close> and \<^verbatim>\<open>a % b\<close> on Python integers round towards minus infinity, as
  \<open>div\<close> and \<open>mod\<close> on \<open>int\<close> do, and raise on a zero divisor.
\<close>

definition floor_div :: "int \<Rightarrow> int \<Rightarrow> error + int" where
  "floor_div a b = (if b = 0 then Inl ZeroDivisionError else Inr (a div b))"

definition modulo :: "int \<Rightarrow> int \<Rightarrow> error + int" where
  "modulo a b = (if b = 0 then Inl ZeroDivisionError else Inr (a mod b))"

text \<open>
  The position that a list of length \<open>n\<close> gives to the subscript \<open>i\<close>: negative subscripts
  count from the end, anything else outside the list raises \<^verbatim>\<open>IndexError\<close>.
\<close>

definition position :: "nat \<Rightarrow> int \<Rightarrow> error + nat" where
  "position n i =
     (if 0 \<le> i \<and> i < int n then Inr (nat i)
      else if - int n \<le> i \<and> i < 0 then Inr (nat (int n + i))
      else Inl IndexError)"

definition item :: "'a list \<Rightarrow> int \<Rightarrow> error + 'a" where
  "item xs i = and_then (position (length xs) i) (\<lambda>k. Inr (xs ! k))"

text \<open>A loop that updates a state and may raise.\<close>

fun fold_err :: "('a \<Rightarrow> 's \<Rightarrow> error + 's) \<Rightarrow> 'a list \<Rightarrow> 's \<Rightarrow> error + 's" where
  "fold_err f [] s = Inr s"
| "fold_err f (a # as) s = and_then (f a s) (fold_err f as)"

text \<open>Decimal digits of a number inside an f-string.\<close>

fun str :: "nat \<Rightarrow> string" where
  "str n = (if n < 10 then [char_of (48 + n)] else str (n div 10) @ [char_of (48 + n mod 10)])"

text \<open>\<^verbatim>\<open>sep.join(es)\<close>\<close>

fun join :: "string \<Rightarrow> string list \<Rightarrow> string" where
  "join sep [] = []"
| "join sep [e] = e"
| "join sep (e # es) = e @ sep @ join sep es"

text \<open>\<^verbatim>\<open>f"{course_name} ({faculty_name}, {room_name})"\<close>\<close>

definition entry_text :: "string \<Rightarrow> string \<Rightarrow> string \<Rightarrow> string" where
  "entry_text course_name faculty_name room_name =
     course_name @ '' ('' @ faculty_name @ '', '' @ room_name @ '')''"

definition entry :: "problem \<Rightarrow> nat \<Rightarrow> nat \<Rightarrow> error + string" where
  "entry P c r =
     and_then (lookup (faculty P) (courses P ! c))
       (\<lambda>faculty_name. Inr (entry_text (courses P ! c) faculty_name (rooms P ! r)))"

definition cell_text :: "string list \<Rightarrow> string" where
  "cell_text cell_entries =
     (if cell_entries \<noteq> [] then join [CHR 0x0A] cell_entries else ''Free'')"

subsection \<open>v3 and v4: a grid of lists, days by periods\<close>

type_synonym grid = "string list list list"

definition empty_grid :: "problem \<Rightarrow> grid" where
  "empty_grid P = replicate (nat (days P)) (replicate (nat (slots_per_day P)) [])"

definition append_entry :: "grid \<Rightarrow> int \<Rightarrow> int \<Rightarrow> string \<Rightarrow> error + grid" where
  "append_entry timetable day period e =
     and_then (position (length timetable) day) (\<lambda>d.
     and_then (position (length (timetable ! d)) period) (\<lambda>p.
       Inr (timetable[d := (timetable ! d)[p := timetable ! d ! p @ [e]]])))"

definition v4_place :: "problem \<Rightarrow> var \<Rightarrow> grid \<Rightarrow> error + grid" where
  "v4_place P v timetable =
     (case v of (c, t, r) \<Rightarrow>
        and_then (floor_div (int t) (slots_per_day P)) (\<lambda>day.
        and_then (modulo (int t) (slots_per_day P)) (\<lambda>period.
        and_then (entry P c r) (\<lambda>e.
          append_entry timetable day period e))))"

text \<open>The cells with \<^verbatim>\<open>solver.Value(x[c, t, r]) == 1\<close>, in the order of the three loops.\<close>

definition v4_true_cells :: "problem \<Rightarrow> assignment \<Rightarrow> var list" where
  "v4_true_cells P x =
     [(c, t, r). c \<leftarrow> course_indices P, t \<leftarrow> time_slots P, r \<leftarrow> room_indices P, x (c, t, r)]"

definition v4_timetable :: "problem \<Rightarrow> assignment \<Rightarrow> error + grid" where
  "v4_timetable P x = fold_err (v4_place P) (v4_true_cells P x) (empty_grid P)"

definition v4_headers :: "problem \<Rightarrow> string list" where
  "v4_headers P = ''Day/Period'' # [''P'' @ str p. p \<leftarrow> [1..<nat (slots_per_day P + 1)]]"

definition v4_row :: "problem \<Rightarrow> grid \<Rightarrow> nat \<Rightarrow> error + string list" where
  "v4_row P timetable day =
     and_then
       (traverse
          (\<lambda>period. and_then (item timetable (int day)) (\<lambda>row.
                     and_then (item row (int period)) (\<lambda>cell_entries.
                       Inr (cell_text cell_entries))))
          [0..<nat (slots_per_day P)])
       (\<lambda>cells. Inr ((''Day '' @ str (day + 1)) # cells))"

definition v4_table_data :: "problem \<Rightarrow> grid \<Rightarrow> error + string list list" where
  "v4_table_data P timetable = traverse (v4_row P timetable) [0..<nat (days P)]"

definition v4_decode :: "problem \<Rightarrow> assignment \<Rightarrow> error + string list \<times> string list list" where
  "v4_decode P x =
     and_then (v4_timetable P x) (\<lambda>timetable.
     and_then (v4_table_data P timetable) (\<lambda>table_data.
       Inr (v4_headers P, table_data)))"

subsection \<open>v2: a defaultdict of defaultdicts of lists, keyed by day and period\<close>

type_synonym day_period_dict = "int \<Rightarrow> int \<Rightarrow> string list"

definition v2_place :: "problem \<Rightarrow> var \<Rightarrow> day_period_dict \<Rightarrow> error + day_period_dict" where
  "v2_place P v timetable =
     (case v of (c, t, r) \<Rightarrow>
        and_then (floor_div (int t) (slots_per_day P)) (\<lambda>d.
        and_then (modulo (int t) (slots_per_day P)) (\<lambda>p.
        and_then (entry P c r) (\<lambda>e.
          Inr (timetable (d + 1 := (timetable (d + 1)) (p + 1 := timetable (d + 1) (p + 1) @ [e])))))))"

definition v2_true_cells :: "problem \<Rightarrow> assignment \<Rightarrow> var list" where
  "v2_true_cells P x =
     [(c, t, r). t \<leftarrow> time_slots P, c \<leftarrow> course_indices P, r \<leftarrow> room_indices P, x (c, t, r)]"

definition v2_timetable :: "problem \<Rightarrow> assignment \<Rightarrow> error + day_period_dict" where
  "v2_timetable P x = fold_err (v2_place P) (v2_true_cells P x) (\<lambda>day period. [])"

definition v2_header :: "string list" where
  "v2_header = ''Day/Period'' # [''P'' @ str p. p \<leftarrow> [1..<9]]"

definition v2_row :: "problem \<Rightarrow> day_period_dict \<Rightarrow> int \<Rightarrow> string list" where
  "v2_row P timetable day =
     (''Day '' @ str (nat day)) #
     [cell_text (timetable day period). period \<leftarrow> [1..slots_per_day P]]"

definition v2_rows :: "problem \<Rightarrow> assignment \<Rightarrow> error + string list list" where
  "v2_rows P x =
     and_then (v2_timetable P x) (\<lambda>timetable.
       Inr [v2_row P timetable day. day \<leftarrow> [1..days P]])"

subsection \<open>What the script prints for a solver status\<close>

text \<open>The status values of the OR-tools CP-SAT solver.\<close>

datatype cp_status = UNKNOWN | MODEL_INVALID | FEASIBLE | INFEASIBLE | OPTIMAL

datatype 'a printed = Timetable 'a | No_feasible_timetable_found

definition v4_output ::
  "problem \<Rightarrow> cp_status \<Rightarrow> assignment \<Rightarrow> error + (string list \<times> string list list) printed" where
  "v4_output P status x =
     (if status = OPTIMAL \<or> status = FEASIBLE
      then and_then (v4_decode P x) (\<lambda>table. Inr (Timetable table))
      else Inr No_feasible_timetable_found)"

definition v2_output ::
  "problem \<Rightarrow> cp_status \<Rightarrow> assignment \<Rightarrow> error + (string list \<times> string list list) printed" where
  "v2_output P status x =
     (if status = OPTIMAL \<or> status = FEASIBLE
      then and_then (v2_rows P x) (\<lambda>rows. Inr (Timetable (v2_header, rows)))
      else Inr No_feasible_timetable_found)"

section \<open>Instances used as examples\<close>

text \<open>
  One day of two periods, one room, two courses with different lecturers and shared
  students; the schedule puts ML in period 1 and AI in period 2. For v1 the same
  schedule is given by the values of its integer variables.
\<close>

definition demo_problem :: problem where
  "demo_problem =
     \<lparr>days = 1, slots_per_day = 2, rooms = [''R1''], courses = [''AI'', ''ML''],
      faculty = [(''AI'', ''Dr.A''), (''ML'', ''Dr.B'')],
      shared_students = [(''AI'', ''ML'')],
      faculty_unavailability = [(''Dr.A'', [0])],
      course_min_lectures = [(''AI'', 1), (''ML'', 1)]\<rparr>"

definition demo_schedule :: assignment where
  "demo_schedule v = (v = (0, 1, 0) \<or> v = (1, 0, 0))"

definition demo_v1_values :: v1_values where
  "demo_v1_values =
     \<lparr>course_time = (\<lambda>c. if c = 0 then 1 else 0), course_room = (\<lambda>c. 0),
      same_room = (\<lambda>i j. True)\<rparr>"

text \<open>A schedule that puts AI, taught by Dr.A, into slot 0.\<close>

definition clash_schedule :: assignment where
  "clash_schedule v = (v = (0, 0, 0) \<or> v = (1, 1, 0))"

text \<open>One room, two slots, three courses that each need one lecture.\<close>

definition pigeonhole_problem :: problem where
  "pigeonhole_problem =
     \<lparr>days = 1, slots_per_day = 2, rooms = [''R1''], courses = [''AI'', ''ML'', ''Math''],
      faculty = [(''AI'', ''Dr.A''), (''ML'', ''Dr.B''), (''Math'', ''Dr.C'')],
      shared_students = [],
      faculty_unavailability = [],
      course_min_lectures = [(''AI'', 1), (''ML'', 1), (''Math'', 1)]\<rparr>"

text \<open>
  Three ill-formed instances: a quota above the number of slots, a course without a
  faculty entry, and an unavailable slot outside the slot range.
\<close>

definition over_quota_problem :: problem where
  "over_quota_problem =
     \<lparr>days = 1, slots_per_day = 2, rooms = [''R1''], courses = [''AI'', ''ML''],
      faculty = [(''AI'', ''Dr.A''), (''ML'', ''Dr.B'')],
      shared_students = [(''AI'', ''ML'')],
      faculty_unavailability = [(''Dr.A'', [0])],
      course_min_lectures = [(''AI'', 3), (''ML'', 1)]\<rparr>"

definition no_faculty_problem :: problem where
  "no_faculty_problem =
     \<lparr>days = 1, slots_per_day = 2, rooms = [''R1''], courses = [''AI'', ''ML''],
      faculty = [(''AI'', ''Dr.A'')],
      shared_students = [],
      faculty_unavailability = [],
      course_min_lectures = [(''AI'', 1), (''ML'', 1)]\<rparr>"

definition bad_slot_problem :: problem where
  "bad_slot_problem =
     \<lparr>days = 1, slots_per_day = 2, rooms = [''R1''], courses = [''AI'', ''ML''],
      faculty = [(''AI'', ''Dr.A''), (''ML'', ''Dr.B'')],
      shared_students = [],
      faculty_unavailability = [(''Dr.A'', [2])],
      course_min_lectures = [(''AI'', 1), (''ML'', 1)]\<rparr>"

text \<open>A schedule with one lecture: AI in slot 1, room 0; slot 0 stays empty.\<close>

definition lone_schedule :: assignment where
  "lone_schedule v = (v = (0, 1, 0))"

text \<open>
  Two rooms and three courses, two of them taught by Dr.A. The first schedule has AI and
  Math side by side in slot 0 and ML in slot 1; the second has Dr.A teaching AI and ML in
  slot 0 in different rooms.
\<close>

definition two_room_problem :: problem where
  "two_room_problem =
     \<lparr>days = 1, slots_per_day = 2, rooms = [''R1'', ''R2''],
      courses = [''AI'', ''ML'', ''Math''],
      faculty = [(''AI'', ''Dr.A''), (''ML'', ''Dr.A''), (''Math'', ''Dr.C'')],
      shared_students = [],
      faculty_unavailability = [],
      course_min_lectures = [(''AI'', 1), (''ML'', 1), (''Math'', 1)]\<rparr>"

definition two_room_schedule :: assignment where
  "two_room_schedule v = (v = (0, 0, 0) \<or> v = (2, 0, 1) \<or> v = (1, 1, 0))"

definition double_booked_schedule :: assignment where
  "double_booked_schedule v = (v = (0, 0, 0) \<or> v = (1, 0, 1) \<or> v = (2, 1, 0))"

section \<open>Basic facts about the model construction\<close>

lemma and_then_Inl [simp]: "and_then (Inl e) k = Inl e"
  by (simp add: and_then_def)

lemma and_then_Inr [simp]: "and_then (Inr v) k = k v"
  by (simp add: and_then_def)

lemma and_then_eq_Inr: "and_then m k = Inr r \<longleftrightarrow> (\<exists>v. m = Inr v \<and> k v = Inr r)"
  by (cases m) simp_all

lemma traverse_eq_Inr:
  "traverse f as = Inr bs \<longleftrightarrow> list_all2 (\<lambda>a b. f a = Inr b) as bs"
proof (induction as arbitrary: bs)
  case Nil
  show ?case by auto
next
  case (Cons a as)
  show ?case
    by (cases bs) (auto simp: and_then_eq_Inr Cons.IH)
qed

lemma traverse_member:
  assumes "traverse f as = Inr bs" and "a \<in> set as"
  shows "\<exists>b \<in> set bs. f a = Inr b"
proof -
  from assms(2) obtain i where i: "i < length as" "as ! i = a"
    by (auto simp: in_set_conv_nth)
  from assms(1) have l: "list_all2 (\<lambda>a b. f a = Inr b) as bs"
    by (simp add: traverse_eq_Inr)
  then have "f (as ! i) = Inr (bs ! i)" "i < length bs"
    using i(1) by (auto dest: list_all2_nthD list_all2_lengthD)
  then show ?thesis using i(2) by auto
qed

lemma satisfies_iff: "satisfies x cs \<longleftrightarrow> (\<forall>c \<in> set cs. holds x c)"
  by (simp add: satisfies_def list_all_iff)

lemma satisfies_append [simp]:
  "satisfies x (cs @ ds) \<longleftrightarrow> satisfies x cs \<and> satisfies x ds"
  by (auto simp: satisfies_iff)

lemma solution_of_v4:
  "solution_of (v4_model ge_check P) x \<longleftrightarrow>
     (\<exists>fe sh ml. faculty_exclusivity P = Inr fe \<and> shared_students_overlap P = Inr sh \<and>
        min_lectures ge_check P = Inr ml \<and> satisfies x (room_exclusivity P) \<and>
        satisfies x (single_room P) \<and> satisfies x fe \<and> satisfies x sh \<and> satisfies x ml)"
  unfolding solution_of_def v4_model_def
  by (cases "faculty_exclusivity P"; cases "shared_students_overlap P"; cases "min_lectures ge_check P")
     auto

lemma solution_of_v3:
  "solution_of (v3_model ge_check P) x \<longleftrightarrow>
     (\<exists>fe un sh ml. faculty_exclusivity P = Inr fe \<and> unavailability P = Inr un \<and>
        shared_students_overlap P = Inr sh \<and> min_lectures ge_check P = Inr ml \<and>
        satisfies x (room_exclusivity P) \<and> satisfies x (single_room P) \<and>
        satisfies x fe \<and> satisfies x un \<and> satisfies x sh \<and> satisfies x ml)"
  unfolding solution_of_def v3_model_def
  by (cases "faculty_exclusivity P"; cases "unavailability P";
      cases "shared_students_overlap P"; cases "min_lectures ge_check P") auto

lemma solution_of_v2:
  "solution_of (v2_model P) x \<longleftrightarrow>
     (\<exists>fe un sh. faculty_exclusivity P = Inr fe \<and> unavailability P = Inr un \<and>
        shared_students_overlap P = Inr sh \<and>
        satisfies x (room_exclusivity P) \<and> satisfies x (every_slot_used P) \<and>
        satisfies x (single_room P) \<and>
        satisfies x fe \<and> satisfies x un \<and> satisfies x sh)"
  unfolding solution_of_def v2_model_def
  by (cases "faculty_exclusivity P"; cases "unavailability P";
      cases "shared_students_overlap P") auto

lemma room_exclusivity_holds:
  assumes "satisfies x (room_exclusivity P)"
    and "t \<in> set (time_slots P)" and "r \<in> set (room_indices P)"
  shows "length [c \<leftarrow> course_indices P. x (c, t, r)] \<le> 1"
proof -
  have "AtMostOne [(c, t, r). c \<leftarrow> course_indices P] \<in> set (room_exclusivity P)"
    using assms(2,3) by (auto simp: room_exclusivity_def)
  with assms(1) have "lin_val x [(c, t, r). c \<leftarrow> course_indices P] \<le> 1"
    by (auto simp: satisfies_iff)
  then show ?thesis
    by (simp add: lin_val_def filter_map comp_def)
qed

lemma filter_le_one_unique:
  assumes "length (filter p xs) \<le> 1" and "distinct xs"
    and "a \<in> set xs" "b \<in> set xs" "p a" "p b"
  shows "a = b"
proof (rule ccontr)
  assume "a \<noteq> b"
  have "{a, b} \<subseteq> set (filter p xs)" using assms by auto
  then have "card {a, b} \<le> card (set (filter p xs))"
    by (intro card_mono) auto
  also have "\<dots> \<le> length (filter p xs)" by (rule card_length)
  finally show False using \<open>a \<noteq> b\<close> assms(1) by simp
qed

lemma lookup_eq_Inr: "lookup d k = Inr v \<longleftrightarrow> map_of d k = Some v"
  by (simp add: lookup_def split: option.splits)

lemma map_of_in_dict_values:
  assumes "map_of d k = Some v"
  shows "v \<in> set (dict_values d)"
proof -
  from assms have "map_of (AList.clearjunk d) k = Some v"
    by (simp add: map_of_clearjunk)
  then have "(k, v) \<in> set (AList.clearjunk d)"
    by (rule map_of_SomeD)
  then show ?thesis
    by (force simp: dict_values_def)
qed

lemma index_Inr:
  "index xs v = Inr i \<Longrightarrow> i < length xs \<and> xs ! i = v \<and> (\<forall>j < i. xs ! j \<noteq> v)"
proof (induction xs arbitrary: i)
  case Nil
  then show ?case by simp
next
  case (Cons a as)
  show ?case
  proof (cases "a = v")
    case True
    with Cons.prems show ?thesis by simp
  next
    case False
    with Cons.prems obtain n where n: "index as v = Inr n" "i = Suc n"
      by (auto simp: and_then_eq_Inr)
    from Cons.IH [OF n(1)] False n(2) show ?thesis
      by (auto simp: nth_Cons split: nat.splits)
  qed
qed

lemma traverse_course_faculty:
  assumes "traverse (course_faculty P) (course_indices P) = Inr fs"
    and "c \<in> set (course_indices P)"
  shows "map_of (faculty P) (courses P ! c) = Some (fs ! c)"
proof -
  from assms(2) have c: "c < length (course_indices P)" "course_indices P ! c = c"
    by (simp_all add: course_indices_def)
  from assms(1) have "list_all2 (\<lambda>a b. course_faculty P a = Inr b) (course_indices P) fs"
    by (simp add: traverse_eq_Inr)
  from list_all2_nthD [OF this c(1)] c(2)
  have "course_faculty P c = Inr (fs ! c)" by simp
  then show ?thesis by (simp add: course_faculty_def lookup_eq_Inr)
qed

lemma relevant_courses_Inr:
  assumes "relevant_courses P f = Inr rc"
  shows "rc = [c \<leftarrow> course_indices P. map_of (faculty P) (courses P ! c) = Some f]"
proof -
  from assms obtain fs where fs: "traverse (course_faculty P) (course_indices P) = Inr fs"
    and rc: "rc = [c \<leftarrow> course_indices P. fs ! c = f]"
    by (auto simp: relevant_courses_def and_then_eq_Inr)
  show ?thesis unfolding rc
    by (rule filter_cong [OF refl]) (auto simp: traverse_course_faculty [OF fs])
qed

lemma faculty_exclusivity_holds:
  assumes "faculty_exclusivity P = Inr fe" and "satisfies x fe"
    and "t \<in> set (time_slots P)"
  shows "length (filter x [(c, t, r).
           c \<leftarrow> [c \<leftarrow> course_indices P. map_of (faculty P) (courses P ! c) = Some f],
           r \<leftarrow> room_indices P]) \<le> 1"
proof (cases "f \<in> set (dict_values (faculty P))")
  case True
  with assms(3) have "(t, f) \<in> set [(t, f). t \<leftarrow> time_slots P, f \<leftarrow> dict_values (faculty P)]"
    by auto
  from traverse_member [OF assms(1) [unfolded faculty_exclusivity_def] this]
  obtain b where b: "b \<in> set fe"
    "and_then (relevant_courses P f)
       (\<lambda>rc. Inr (AtMostOne [(c, t, r). c \<leftarrow> rc, r \<leftarrow> room_indices P])) = Inr b"
    by auto
  from b(2) obtain rc where rc: "relevant_courses P f = Inr rc"
    and b_eq: "b = AtMostOne [(c, t, r). c \<leftarrow> rc, r \<leftarrow> room_indices P]"
    by (auto simp: and_then_eq_Inr)
  from b(1) assms(2) have "holds x b" by (simp add: satisfies_iff)
  then show ?thesis
    unfolding b_eq relevant_courses_Inr [OF rc] by (simp add: lin_val_def)
next
  case False
  have "[c \<leftarrow> course_indices P. map_of (faculty P) (courses P ! c) = Some f] = []"
    using False by (auto simp: filter_empty_conv dest: map_of_in_dict_values)
  then show ?thesis by simp
qed

lemma shared_students_holds:
  assumes "shared_students_overlap P = Inr sh" and "satisfies x sh"
    and "pair \<in> set (shared_students P)"
  shows "\<exists>i j. index (courses P) (fst pair) = Inr i \<and> index (courses P) (snd pair) = Inr j \<and>
           (\<forall>t \<in> set (time_slots P).
              length (filter x [(i, t, r). r \<leftarrow> room_indices P]) +
              length (filter x [(j, t, r). r \<leftarrow> room_indices P]) \<le> 1)"
proof -
  from assms(1) obtain css where css: "traverse (shared_pair P) (shared_students P) = Inr css"
    and sh: "sh = concat css"
    by (auto simp: shared_students_overlap_def and_then_eq_Inr)
  from traverse_member [OF css assms(3)]
  obtain cs where cs: "cs \<in> set css" "shared_pair P pair = Inr cs" by auto
  from cs(2) obtain i j where i: "index (courses P) (fst pair) = Inr i"
    and j: "index (courses P) (snd pair) = Inr j"
    and cs_eq: "cs = [SumLe ([(i, t, r1). r1 \<leftarrow> room_indices P] @
                             [(j, t, r2). r2 \<leftarrow> room_indices P]) 1. t \<leftarrow> time_slots P]"
    by (auto simp: shared_pair_def and_then_eq_Inr)
  have "\<forall>c \<in> set cs. holds x c"
    using assms(2) cs(1) by (auto simp: satisfies_iff sh)
  then have "\<forall>t \<in> set (time_slots P).
      length (filter x [(i, t, r). r \<leftarrow> room_indices P]) +
      length (filter x [(j, t, r). r \<leftarrow> room_indices P]) \<le> 1"
    unfolding cs_eq by (auto simp: lin_val_def)
  with i j show ?thesis by blast
qed

lemma min_lectures_holds:
  assumes "min_lectures ge_check P = Inr ml" and "satisfies x ml"
    and "c \<in> set (course_indices P)"
    and "map_of (course_min_lectures P) (courses P ! c) = Some m"
  shows "m \<le> int (length (filter x [(c, t, r). t \<leftarrow> time_slots P, r \<leftarrow> room_indices P]))"
proof -
  from traverse_member [OF assms(1) [unfolded min_lectures_def] assms(3)]
  obtain b where b: "b \<in> set ml"
    "and_then (lookup (course_min_lectures P) (courses P ! c))
       (\<lambda>m. sum_ge ge_check [(c, t, r). t \<leftarrow> time_slots P, r \<leftarrow> room_indices P] m) = Inr b"
    by auto
  from b(2) assms(4)
  have "sum_ge ge_check [(c, t, r). t \<leftarrow> time_slots P, r \<leftarrow> room_indices P] m = Inr b"
    by (auto simp: and_then_eq_Inr lookup_eq_Inr)
  then have "b = SumGe [(c, t, r). t \<leftarrow> time_slots P, r \<leftarrow> room_indices P] m"
    by (auto simp: sum_ge_def split: if_splits option.splits)
  moreover from b(1) assms(2) have "holds x b" by (simp add: satisfies_iff)
  ultimately show ?thesis by (simp add: lin_val_def)
qed

lemma unavailability_holds:
  assumes "unavailability P = Inr un" and "satisfies x un"
    and "c \<in> set (course_indices P)"
    and "map_of (faculty P) (courses P ! c) = Some f"
    and "map_of (faculty_unavailability P) f = Some ts"
    and "s \<in> set ts" and "r \<in> set (room_indices P)"
  shows "0 \<le> s \<and> s < total_slots P \<and> \<not> x (c, nat s, r)"
proof -
  from assms(1) obtain css where css: "traverse (unavailability_of P) (course_indices P) = Inr css"
    and un: "un = concat css"
    by (auto simp: unavailability_def and_then_eq_Inr)
  from traverse_member [OF css assms(3)]
  obtain cs where cs: "cs \<in> set css" "unavailability_of P c = Inr cs" by auto
  from cs(2) assms(4,5)
  have tr: "traverse (\<lambda>(t, r). and_then (x_key P c t r) (\<lambda>v. Inr (EqZero v)))
             [(t, r). t \<leftarrow> ts, r \<leftarrow> room_indices P] = Inr cs"
    by (simp add: unavailability_of_def course_faculty_def lookup_def)
  have "(s, r) \<in> set [(t, r). t \<leftarrow> ts, r \<leftarrow> room_indices P]"
    using assms(6,7) by auto
  from traverse_member [OF tr this]
  obtain b where b: "b \<in> set cs" "and_then (x_key P c s r) (\<lambda>v. Inr (EqZero v)) = Inr b"
    by auto
  from b(2) have rng: "0 \<le> s \<and> s < total_slots P" and b_eq: "b = EqZero (c, nat s, r)"
    by (auto simp: and_then_eq_Inr x_key_def split: if_splits)
  from b(1) cs(1) assms(2) have "holds x b"
    by (auto simp: satisfies_iff un)
  with rng b_eq show ?thesis by simp
qed

section \<open>Facts about the model of v1\<close>

lemma at_most_one_filter:
  assumes "distinct xs"
    and "\<And>a b. a \<in> set xs \<Longrightarrow> b \<in> set xs \<Longrightarrow> p a \<Longrightarrow> p b \<Longrightarrow> a = b"
  shows "length (filter p xs) \<le> 1"
proof (cases "filter p xs")
  case Nil
  then show ?thesis by simp
next
  case (Cons a as)
  then have "a \<in> set (filter p xs)" by simp
  then have a: "a \<in> set xs" "p a" by simp_all
  have "set (filter p xs) \<subseteq> {a}"
    using assms(2) a by auto
  then have "card (set (filter p xs)) \<le> card {a}"
    by (intro card_mono) auto
  moreover have "distinct (filter p xs)" using assms(1) by simp
  then have "card (set (filter p xs)) = length (filter p xs)"
    by (rule distinct_card)
  ultimately show ?thesis by simp
qed

lemma distinct_cells:
  assumes "distinct cs" and "distinct rs"
  shows "distinct [(c, t, r). c \<leftarrow> cs, r \<leftarrow> rs]"
  using assms by (induction cs) (auto simp: distinct_map inj_on_def)

lemma v1_solution_parts:
  assumes "v1_solution_of (v1_model P) s"
  obtains db un sh where "v1_double_booking P = Inr db" and "v1_unavailable P = Inr un"
    and "traverse (v1_shared_pair P) (shared_students P) = Inr sh"
    and "\<forall>c \<in> set (v1_variables P). v1_holds s c"
    and "\<forall>c \<in> set (v1_same_room P). v1_holds s c"
    and "\<forall>c \<in> set db. v1_holds s c"
    and "\<forall>c \<in> set un. v1_holds s c"
    and "\<forall>c \<in> set sh. v1_holds s c"
  using assms unfolding v1_solution_of_def v1_model_def
  by (cases "v1_double_booking P"; cases "v1_unavailable P";
      cases "traverse (v1_shared_pair P) (shared_students P)")
     (auto simp: list_all_iff)

lemma v1_same_room_lt:
  assumes "\<forall>c \<in> set (v1_same_room P). v1_holds s c"
    and "i \<in> set (course_indices P)" and "j \<in> set (course_indices P)" and "i < j"
    and "course_room s i = course_room s j"
  shows "course_time s i \<noteq> course_time s j"
proof -
  have "Differ (Course_room i) (Course_room j) (Some (Not_same_room i j)) \<in> set (v1_same_room P)"
    and "Differ (Course_time i) (Course_time j) (Some (Same_room i j)) \<in> set (v1_same_room P)"
    using assms(2-4) by (auto simp: v1_same_room_def)
  with assms(1) have "v1_holds s (Differ (Course_room i) (Course_room j) (Some (Not_same_room i j)))"
    and "v1_holds s (Differ (Course_time i) (Course_time j) (Some (Same_room i j)))"
    by blast+
  with assms(5) show ?thesis by auto
qed

lemma v1_same_room_neq:
  assumes "\<forall>c \<in> set (v1_same_room P). v1_holds s c"
    and "i \<in> set (course_indices P)" and "j \<in> set (course_indices P)" and "i \<noteq> j"
    and "course_room s i = course_room s j"
  shows "course_time s i \<noteq> course_time s j"
proof (cases "i < j")
  case True
  from v1_same_room_lt [OF assms(1,2,3) True assms(5)] show ?thesis .
next
  case False
  with assms(4) have "j < i" by simp
  from v1_same_room_lt [OF assms(1,3,2) this] assms(5) show ?thesis by simp
qed

lemma v1_double_booking_lt:
  assumes "v1_double_booking P = Inr db" and "\<forall>c \<in> set db. v1_holds s c"
    and "i \<in> set (course_indices P)" and "j \<in> set (course_indices P)" and "i < j"
    and "map_of (faculty P) (courses P ! i) = Some f"
    and "map_of (faculty P) (courses P ! j) = Some f"
  shows "course_time s i \<noteq> course_time s j"
proof -
  from assms(1) obtain css
    where css: "traverse (v1_double_booking_of P)
                  [(i, j). i \<leftarrow> course_indices P, j \<leftarrow> course_indices P] = Inr css"
    and db: "db = concat css"
    by (auto simp: v1_double_booking_def and_then_eq_Inr)
  have "(i, j) \<in> set [(i, j). i \<leftarrow> course_indices P, j \<leftarrow> course_indices P]"
    using assms(3,4) by auto
  from traverse_member [OF css this]
  obtain cs where cs: "cs \<in> set css" "v1_double_booking_of P (i, j) = Inr cs" by auto
  from cs(2) assms(5,6,7) have "cs = [Differ (Course_time i) (Course_time j) None]"
    by (simp add: v1_double_booking_of_def course_faculty_def lookup_def)
  with cs(1) have "Differ (Course_time i) (Course_time j) None \<in> set db"
    by (force simp: db)
  with assms(2) have "v1_holds s (Differ (Course_time i) (Course_time j) None)" by blast
  then show ?thesis by simp
qed

lemma v1_double_booking_neq:
  assumes "v1_double_booking P = Inr db" and "\<forall>c \<in> set db. v1_holds s c"
    and "i \<in> set (course_indices P)" and "j \<in> set (course_indices P)" and "i \<noteq> j"
    and "map_of (faculty P) (courses P ! i) = Some f"
    and "map_of (faculty P) (courses P ! j) = Some f"
  shows "course_time s i \<noteq> course_time s j"
proof (cases "i < j")
  case True
  from v1_double_booking_lt [OF assms(1,2,3,4) True assms(6,7)] show ?thesis .
next
  case False
  with assms(5) have "j < i" by simp
  from v1_double_booking_lt [OF assms(1,2,4,3) this assms(7,6)] show ?thesis by simp
qed

lemma v1_unavailable_holds:
  assumes "v1_unavailable P = Inr un" and "\<forall>c \<in> set un. v1_holds s c"
    and "c \<in> set (course_indices P)"
    and "map_of (faculty P) (courses P ! c) = Some f"
    and "map_of (faculty_unavailability P) f = Some ts"
    and "slot \<in> set ts"
  shows "course_time s c \<noteq> slot"
proof -
  from assms(1) obtain css
    where css: "traverse (v1_unavailable_of P) (course_indices P) = Inr css"
    and un: "un = concat css"
    by (auto simp: v1_unavailable_def and_then_eq_Inr)
  from traverse_member [OF css assms(3)]
  obtain cs where cs: "cs \<in> set css" "v1_unavailable_of P c = Inr cs" by auto
  from cs(2) assms(4,5) have "cs = [Differ_const (Course_time c) slot. slot \<leftarrow> ts]"
    by (simp add: v1_unavailable_of_def course_faculty_def lookup_def)
  with cs(1) assms(6) have "Differ_const (Course_time c) slot \<in> set un"
    by (force simp: un)
  with assms(2) have "v1_holds s (Differ_const (Course_time c) slot)" by blast
  then show ?thesis by simp
qed

lemma v1_shared_holds:
  assumes "traverse (v1_shared_pair P) (shared_students P) = Inr sh"
    and "\<forall>c \<in> set sh. v1_holds s c"
    and "pair \<in> set (shared_students P)"
  shows "\<exists>i j. index (courses P) (fst pair) = Inr i \<and> index (courses P) (snd pair) = Inr j \<and>
           course_time s i \<noteq> course_time s j"
proof -
  from traverse_member [OF assms(1,3)]
  obtain b where b: "b \<in> set sh" "v1_shared_pair P pair = Inr b" by auto
  from b(2) obtain i j where i: "index (courses P) (fst pair) = Inr i"
    and j: "index (courses P) (snd pair) = Inr j"
    and b_eq: "b = Differ (Course_time i) (Course_time j) None"
    by (auto simp: v1_shared_pair_def and_then_eq_Inr)
  from b(1) assms(2) have "v1_holds s b" by blast
  with i j b_eq show ?thesis by auto
qed

lemma v1_grid_row:
  "length (filter (v1_grid s) [(c, t, r). r \<leftarrow> room_indices P]) \<le> 1"
  by (rule at_most_one_filter) (auto simp: distinct_map inj_on_def room_indices_def v1_grid_def)

lemma v1_grid_row_empty:
  assumes "course_time s c \<noteq> int t"
  shows "filter (v1_grid s) [(c, t, r). r \<leftarrow> room_indices P] = []"
  using assms by (auto simp: filter_empty_conv v1_grid_def)

section \<open>Room exclusivity\<close>

text \<open>
  Claim C3. In every solved assignment, for every slot \<open>t\<close> and room \<open>r\<close>, at most one
  course \<open>c\<close> has \<open>x (c, t, r)\<close> true: the number of such courses is at most one, and
  any two of them are the same course. This holds for the models of v2, v3 and v4
  (\<^verbatim>\<open>AddAtMostOne\<close> over the courses) and for v1 (the reified same-room constraint),
  whose solution is read as the grid \<open>v1_grid s\<close>.
\<close>

theorem room_exclusivity_solved:
  assumes "solution_of (v2_model P) x \<or> solution_of (v3_model ge_check P) x \<or>
           solution_of (v4_model ge_check P) x \<or> v1_solution_of (v1_model P) s \<and> x = v1_grid s"
    and "t \<in> set (time_slots P)" and "r \<in> set (room_indices P)"
  shows "length [c \<leftarrow> course_indices P. x (c, t, r)] \<le> 1 \<and>
         (\<forall>c \<in> set (course_indices P). \<forall>c' \<in> set (course_indices P).
            x (c, t, r) \<longrightarrow> x (c', t, r) \<longrightarrow> c = c')"
proof -
  have d: "distinct (course_indices P)" by (simp add: course_indices_def)
  have le: "length [c \<leftarrow> course_indices P. x (c, t, r)] \<le> 1"
  proof (cases "v1_solution_of (v1_model P) s \<and> x = v1_grid s")
    case True
    then have sol: "v1_solution_of (v1_model P) s" and x: "x = v1_grid s" by simp_all
    from sol have sr: "\<forall>c \<in> set (v1_same_room P). v1_holds s c"
      by (rule v1_solution_parts)
    show ?thesis
    proof (rule at_most_one_filter [OF d])
      fix a b
      assume ab: "a \<in> set (course_indices P)" "b \<in> set (course_indices P)"
        "x (a, t, r)" "x (b, t, r)"
      then have "course_room s a = course_room s b" "course_time s a = course_time s b"
        by (simp_all add: x v1_grid_def)
      with v1_same_room_neq [OF sr ab(1,2)] show "a = b" by blast
    qed
  next
    case False
    with assms(1) have "satisfies x (room_exclusivity P)"
      by (auto simp: solution_of_v2 solution_of_v3 solution_of_v4)
    then show ?thesis using assms(2,3) by (rule room_exclusivity_holds)
  qed
  show ?thesis
    using le filter_le_one_unique [OF le d] by blast
qed

theorem room_exclusivity_solved_witness:
  "solution_of (v4_model int64_ge_check demo_problem) demo_schedule \<and>
   0 \<in> set (time_slots demo_problem) \<and> 0 \<in> set (room_indices demo_problem) \<and>
   length [c \<leftarrow> course_indices demo_problem. demo_schedule (c, 0, 0)] \<le> 1"
proof -
  have s: "solution_of (v4_model int64_ge_check demo_problem) demo_schedule" by code_simp
  have t: "0 \<in> set (time_slots demo_problem)" by code_simp
  have r: "0 \<in> set (room_indices demo_problem)" by code_simp
  from room_exclusivity_solved [where P = demo_problem and x = demo_schedule and s = demo_v1_values
      and ge_check = int64_ge_check and t = 0 and r = 0] s t r
  show ?thesis by blast
qed

section \<open>Faculty exclusivity\<close>

text \<open>
  Claim C6. In every solved assignment, for every slot \<open>t\<close> and faculty \<open>f\<close>, among the
  cells \<open>(c, t, r)\<close> of all courses \<open>c\<close> taught by \<open>f\<close> and all rooms \<open>r\<close>, at most
  one is true. In the instance of the witness Dr.A teaches two courses and there are two
  rooms, so four cells compete in each slot; the schedule that books Dr.A twice in slot 0
  is no solved assignment.
\<close>

theorem faculty_exclusivity_solved:
  assumes "solution_of (v2_model P) x \<or> solution_of (v3_model ge_check P) x \<or>
           solution_of (v4_model ge_check P) x \<or> v1_solution_of (v1_model P) s \<and> x = v1_grid s"
    and "t \<in> set (time_slots P)"
  shows "length (filter x [(c, t, r).
           c \<leftarrow> [c \<leftarrow> course_indices P. map_of (faculty P) (courses P ! c) = Some f],
           r \<leftarrow> room_indices P]) \<le> 1"
proof (cases "v1_solution_of (v1_model P) s \<and> x = v1_grid s")
  case True
  then have sol: "v1_solution_of (v1_model P) s" and x: "x = v1_grid s" by simp_all
  from sol obtain db where db: "v1_double_booking P = Inr db" "\<forall>c \<in> set db. v1_holds s c"
    by (rule v1_solution_parts)
  let ?cs = "[c \<leftarrow> course_indices P. map_of (faculty P) (courses P ! c) = Some f]"
  have "distinct ?cs" "distinct (room_indices P)"
    by (simp_all add: course_indices_def room_indices_def)
  then have dist: "distinct [(c, t, r). c \<leftarrow> ?cs, r \<leftarrow> room_indices P]"
    by (rule distinct_cells)
  show ?thesis
  proof (rule at_most_one_filter [OF dist])
    fix a b
    assume a: "a \<in> set [(c, t, r). c \<leftarrow> ?cs, r \<leftarrow> room_indices P]"
      and b: "b \<in> set [(c, t, r). c \<leftarrow> ?cs, r \<leftarrow> room_indices P]"
      and xa: "x a" and xb: "x b"
    from a obtain c r where a_eq: "a = (c, t, r)" and c: "c \<in> set (course_indices P)"
      "map_of (faculty P) (courses P ! c) = Some f" by auto
    from b obtain c' r' where b_eq: "b = (c', t, r')" and c': "c' \<in> set (course_indices P)"
      "map_of (faculty P) (courses P ! c') = Some f" by auto
    from xa xb have tm: "course_time s c = course_time s c'"
      and rm: "course_room s c = int r" "course_room s c' = int r'"
      by (simp_all add: x v1_grid_def a_eq b_eq)
    have "c = c'"
      using v1_double_booking_neq [OF db c(1) c'(1) _ c(2) c'(2)] tm by blast
    with rm have "r = r'" by simp
    with \<open>c = c'\<close> show "a = b" by (simp add: a_eq b_eq)
  qed
next
  case False
  with assms(1) obtain fe where "faculty_exclusivity P = Inr fe" "satisfies x fe"
    by (auto simp: solution_of_v2 solution_of_v3 solution_of_v4)
  then show ?thesis using assms(2) by (rule faculty_exclusivity_holds)
qed

theorem faculty_exclusivity_solved_witness:
  "solution_of (v4_model int64_ge_check two_room_problem) two_room_schedule \<and>
   0 \<in> set (time_slots two_room_problem) \<and>
   [(c, 0 :: nat, r).
      c \<leftarrow> [c \<leftarrow> course_indices two_room_problem.
             map_of (faculty two_room_problem) (courses two_room_problem ! c) = Some ''Dr.A''],
      r \<leftarrow> room_indices two_room_problem] = [(0, 0, 0), (0, 0, 1), (1, 0, 0), (1, 0, 1)] \<and>
   length (filter two_room_schedule [(0, 0, 0), (0, 0, 1), (1, 0, 0), (1, 0, 1)]) \<le> 1 \<and>
   length (filter double_booked_schedule [(0, 0, 0), (0, 0, 1), (1, 0, 0), (1, 0, 1)]) = 2 \<and>
   \<not> solution_of (v4_model int64_ge_check two_room_problem) double_booked_schedule"
proof -
  have s: "solution_of (v4_model int64_ge_check two_room_problem) two_room_schedule"
    by code_simp
  have t: "0 \<in> set (time_slots two_room_problem)" by code_simp
  have cells: "[(c, 0 :: nat, r).
      c \<leftarrow> [c \<leftarrow> course_indices two_room_problem.
             map_of (faculty two_room_problem) (courses two_room_problem ! c) = Some ''Dr.A''],
      r \<leftarrow> room_indices two_room_problem] = [(0, 0, 0), (0, 0, 1), (1, 0, 0), (1, 0, 1)]"
    by code_simp
  have two: "length (filter double_booked_schedule
               [(0, 0, 0), (0, 0, 1), (1, 0, 0), (1, 0, 1)]) = 2"
    by code_simp
  from faculty_exclusivity_solved [where P = two_room_problem and x = two_room_schedule
      and s = demo_v1_values and ge_check = int64_ge_check and t = 0 and f = "''Dr.A''"] s t
  have one: "length (filter two_room_schedule [(0, 0, 0), (0, 0, 1), (1, 0, 0), (1, 0, 1)]) \<le> 1"
    unfolding cells by blast
  from faculty_exclusivity_solved [where P = two_room_problem and x = double_booked_schedule
      and s = demo_v1_values and ge_check = int64_ge_check and t = 0 and f = "''Dr.A''"] t two
  have no: "\<not> solution_of (v4_model int64_ge_check two_room_problem) double_booked_schedule"
    unfolding cells by auto
  from s t cells one two no show ?thesis by blast
qed

section \<open>Conflict pairs\<close>

text \<open>
  Claim C4. For every declared pair of \<open>shared_students\<close>, with \<open>i\<close> and \<open>j\<close> the
  course indices the scripts find by \<^verbatim>\<open>courses.index\<close>, and every slot \<open>t\<close>: the number
  of true cells of \<open>i\<close> at \<open>t\<close> plus the number of true cells of \<open>j\<close> at \<open>t\<close>, over all
  rooms, is at most one.
\<close>

theorem conflict_pair_solved:
  assumes "solution_of (v2_model P) x \<or> solution_of (v3_model ge_check P) x \<or>
           solution_of (v4_model ge_check P) x \<or> v1_solution_of (v1_model P) s \<and> x = v1_grid s"
    and "pair \<in> set (shared_students P)"
  shows "\<exists>i j. index (courses P) (fst pair) = Inr i \<and> index (courses P) (snd pair) = Inr j \<and>
           (\<forall>t \<in> set (time_slots P).
              length (filter x [(i, t, r). r \<leftarrow> room_indices P]) +
              length (filter x [(j, t, r). r \<leftarrow> room_indices P]) \<le> 1)"
proof (cases "v1_solution_of (v1_model P) s \<and> x = v1_grid s")
  case True
  then have sol: "v1_solution_of (v1_model P) s" and x: "x = v1_grid s" by simp_all
  from sol obtain sh where sh: "traverse (v1_shared_pair P) (shared_students P) = Inr sh"
    "\<forall>c \<in> set sh. v1_holds s c"
    by (rule v1_solution_parts)
  from v1_shared_holds [OF sh assms(2)]
  obtain i j where i: "index (courses P) (fst pair) = Inr i"
    and j: "index (courses P) (snd pair) = Inr j"
    and ne: "course_time s i \<noteq> course_time s j" by blast
  have "length (filter x [(i, t, r). r \<leftarrow> room_indices P]) +
        length (filter x [(j, t, r). r \<leftarrow> room_indices P]) \<le> 1" for t
  proof (cases "course_time s i = int t")
    case True
    with ne have "course_time s j \<noteq> int t" by simp
    from v1_grid_row_empty [OF this] v1_grid_row [of s i t P]
    show ?thesis by (simp add: x)
  next
    case False
    from v1_grid_row_empty [OF this] v1_grid_row [of s j t P]
    show ?thesis by (simp add: x)
  qed
  with i j show ?thesis by blast
next
  case False
  with assms(1) obtain sh where "shared_students_overlap P = Inr sh" "satisfies x sh"
    by (auto simp: solution_of_v2 solution_of_v3 solution_of_v4)
  then show ?thesis using assms(2) by (rule shared_students_holds)
qed

theorem conflict_pair_solved_witness:
  "solution_of (v4_model int64_ge_check demo_problem) demo_schedule \<and>
   (''AI'', ''ML'') \<in> set (shared_students demo_problem) \<and>
   index (courses demo_problem) ''AI'' = Inr 0 \<and>
   index (courses demo_problem) ''ML'' = Inr 1 \<and>
   time_slots demo_problem = [0, 1] \<and>
   length (filter demo_schedule [(0, 0, r). r \<leftarrow> room_indices demo_problem]) +
   length (filter demo_schedule [(1, 0, r). r \<leftarrow> room_indices demo_problem]) \<le> 1 \<and>
   length (filter demo_schedule [(0, 1, r). r \<leftarrow> room_indices demo_problem]) +
   length (filter demo_schedule [(1, 1, r). r \<leftarrow> room_indices demo_problem]) \<le> 1"
proof -
  have s: "solution_of (v4_model int64_ge_check demo_problem) demo_schedule" by code_simp
  have p: "(''AI'', ''ML'') \<in> set (shared_students demo_problem)" by code_simp
  have i: "index (courses demo_problem) ''AI'' = Inr 0" by code_simp
  have j: "index (courses demo_problem) ''ML'' = Inr 1" by code_simp
  have ts: "time_slots demo_problem = [0, 1]" by code_simp
  from conflict_pair_solved [where P = demo_problem and x = demo_schedule and s = demo_v1_values
      and ge_check = int64_ge_check and pair = "(''AI'', ''ML'')"]
    s p i j ts
  show ?thesis by simp
qed

section \<open>Minimum lecture quota\<close>

text \<open>
  Claim C5. For every course with a declared minimum \<open>m\<close> in \<open>course_min_lectures\<close>, in
  every solved assignment of v3 and v4 (the scripts that declare quotas), the number of
  true cells of that course over all slots and rooms is at least \<open>m\<close>.
\<close>

theorem minimum_quota_solved:
  assumes "solution_of (v3_model ge_check P) x \<or> solution_of (v4_model ge_check P) x"
    and "c \<in> set (course_indices P)"
    and "map_of (course_min_lectures P) (courses P ! c) = Some m"
  shows "m \<le> int (length (filter x [(c, t, r). t \<leftarrow> time_slots P, r \<leftarrow> room_indices P]))"
proof -
  from assms(1) obtain ml where "min_lectures ge_check P = Inr ml" "satisfies x ml"
    by (auto simp: solution_of_v3 solution_of_v4)
  then show ?thesis using assms(2,3) by (rule min_lectures_holds)
qed

theorem minimum_quota_solved_witness:
  "solution_of (v4_model int64_ge_check demo_problem) demo_schedule \<and>
   1 \<in> set (course_indices demo_problem) \<and>
   map_of (course_min_lectures demo_problem) (courses demo_problem ! 1) = Some 1 \<and>
   1 \<le> int (length (filter demo_schedule
          [(1, t, r). t \<leftarrow> time_slots demo_problem, r \<leftarrow> room_indices demo_problem]))"
proof -
  have s: "solution_of (v4_model int64_ge_check demo_problem) demo_schedule" by code_simp
  have c: "1 \<in> set (course_indices demo_problem)" by code_simp
  have m: "map_of (course_min_lectures demo_problem) (courses demo_problem ! 1) = Some 1"
    by code_simp
  from minimum_quota_solved [where P = demo_problem and x = demo_schedule
      and ge_check = int64_ge_check and c = 1 and m = 1] s c m
  show ?thesis by blast
qed

section \<open>Faculty unavailability\<close>

text \<open>
  Claim C1, as amended. In every solved assignment of v1, v2 and v3, for every faculty
  \<open>f\<close> with a declared unavailable slot list \<open>ts\<close>, every slot \<open>t\<close> in \<open>ts\<close>, every room
  \<open>r\<close> and every course \<open>c\<close> taught by \<open>f\<close>, the cell \<open>x (c, t, r)\<close> is false.
\<close>

theorem unavailability_solved:
  assumes "solution_of (v2_model P) x \<or> solution_of (v3_model ge_check P) x \<or>
           v1_solution_of (v1_model P) s \<and> x = v1_grid s"
    and "c \<in> set (course_indices P)"
    and "map_of (faculty P) (courses P ! c) = Some f"
    and "map_of (faculty_unavailability P) f = Some ts"
    and "int t \<in> set ts" and "r \<in> set (room_indices P)"
  shows "\<not> x (c, t, r)"
proof (cases "v1_solution_of (v1_model P) s \<and> x = v1_grid s")
  case True
  then have sol: "v1_solution_of (v1_model P) s" and x: "x = v1_grid s" by simp_all
  from sol obtain un where un: "v1_unavailable P = Inr un" "\<forall>c \<in> set un. v1_holds s c"
    by (rule v1_solution_parts)
  from v1_unavailable_holds [OF un assms(2,3,4,5)]
  show ?thesis by (simp add: x v1_grid_def)
next
  case False
  with assms(1) obtain un where "unavailability P = Inr un" "satisfies x un"
    by (auto simp: solution_of_v2 solution_of_v3)
  from unavailability_holds [OF this assms(2,3,4,5,6)]
  show ?thesis by simp
qed

theorem unavailability_solved_witness:
  "solution_of (v3_model int64_ge_check demo_problem) demo_schedule \<and>
   0 \<in> set (course_indices demo_problem) \<and>
   map_of (faculty demo_problem) (courses demo_problem ! 0) = Some ''Dr.A'' \<and>
   map_of (faculty_unavailability demo_problem) ''Dr.A'' = Some [0] \<and>
   int 0 \<in> set [0] \<and> 0 \<in> set (room_indices demo_problem) \<and>
   \<not> demo_schedule (0, 0, 0)"
proof -
  have s: "solution_of (v3_model int64_ge_check demo_problem) demo_schedule" by code_simp
  have c: "0 \<in> set (course_indices demo_problem)" by code_simp
  have f: "map_of (faculty demo_problem) (courses demo_problem ! 0) = Some ''Dr.A''"
    by code_simp
  have u: "map_of (faculty_unavailability demo_problem) ''Dr.A'' = Some [0]" by code_simp
  have t: "int 0 \<in> set [0]" by simp
  have r: "0 \<in> set (room_indices demo_problem)" by code_simp
  from unavailability_solved [where P = demo_problem and x = demo_schedule and s = demo_v1_values
      and ge_check = int64_ge_check and c = 0 and f = "''Dr.A''" and ts = "[0]" and t = 0
      and r = 0]
    s c f u t r
  show ?thesis by blast
qed

text \<open>
  v4 binds no \<^verbatim>\<open>faculty_unavailability\<close> and adds no such constraint: with the
  unavailability of the earlier scripts (Dr.A in slot 0), its model is solved by a
  schedule with AI in slot 0.
\<close>

theorem unavailability_v4_counterexample:
  "solution_of (v4_model int64_ge_check demo_problem) clash_schedule \<and>
   0 \<in> set (course_indices demo_problem) \<and>
   map_of (faculty demo_problem) (courses demo_problem ! 0) = Some ''Dr.A'' \<and>
   map_of (faculty_unavailability demo_problem) ''Dr.A'' = Some [0] \<and>
   int 0 \<in> set [0] \<and> 0 \<in> set (room_indices demo_problem) \<and>
   clash_schedule (0, 0, 0)"
  by code_simp

section \<open>Pigeonhole infeasibility\<close>

lemma pigeonhole_cells:
  assumes "satisfies x (room_exclusivity P)"
    and "min_lectures ge_check P = Inr ml" and "satisfies x ml"
    and "length (rooms P) = 1" and "total_slots P = 2" and "length (courses P) = 3"
    and "\<forall>c \<in> set (course_indices P).
           map_of (course_min_lectures P) (courses P ! c) = Some 1"
  shows False
proof -
  have ts: "time_slots P = [0, Suc 0]"
    using assms(5) by (simp add: time_slots_def upt_rec)
  have rs: "room_indices P = [0]"
    using assms(4) by (simp add: room_indices_def)
  have cs: "set (course_indices P) = {0, Suc 0, Suc (Suc 0)}"
    using assms(6) by (auto simp: course_indices_def)
  have some: "x (c, 0, 0) \<or> x (c, Suc 0, 0)" if "c \<in> set (course_indices P)" for c
  proof -
    from that assms(7) have "map_of (course_min_lectures P) (courses P ! c) = Some 1"
      by blast
    from min_lectures_holds [OF assms(2,3) that this]
    show ?thesis by (simp add: ts rs split: if_splits)
  qed
  have one: "a = b" if "a \<in> set (course_indices P)" "b \<in> set (course_indices P)"
    "x (a, t, 0)" "x (b, t, 0)" "t \<in> set (time_slots P)" for a b t
  proof -
    have r: "0 \<in> set (room_indices P)" by (simp add: rs)
    have d: "distinct (course_indices P)" by (simp add: course_indices_def)
    from room_exclusivity_holds [OF assms(1) that(5) r]
    have "length [c \<leftarrow> course_indices P. x (c, t, 0)] \<le> 1" .
    from filter_le_one_unique [OF this d that(1,2,3,4)] show ?thesis .
  qed
  have s0: "x (0, 0, 0) \<or> x (0, Suc 0, 0)" using some [of 0] cs by simp
  have s1: "x (Suc 0, 0, 0) \<or> x (Suc 0, Suc 0, 0)" using some [of "Suc 0"] cs by simp
  have s2: "x (Suc (Suc 0), 0, 0) \<or> x (Suc (Suc 0), Suc 0, 0)"
    using some [of "Suc (Suc 0)"] cs by simp
  have n01: "\<not> (x (0, t, 0) \<and> x (Suc 0, t, 0))" if "t \<in> set (time_slots P)" for t
    using one [of 0 "Suc 0" t] that cs by auto
  have n02: "\<not> (x (0, t, 0) \<and> x (Suc (Suc 0), t, 0))" if "t \<in> set (time_slots P)" for t
    using one [of 0 "Suc (Suc 0)" t] that cs by auto
  have n12: "\<not> (x (Suc 0, t, 0) \<and> x (Suc (Suc 0), t, 0))" if "t \<in> set (time_slots P)" for t
    using one [of "Suc 0" "Suc (Suc 0)" t] that cs by auto
  have t0: "0 \<in> set (time_slots P)" and t1: "Suc 0 \<in> set (time_slots P)"
    by (simp_all add: ts)
  from s0 s1 s2 n01 [OF t0] n01 [OF t1] n02 [OF t0] n02 [OF t1] n12 [OF t0] n12 [OF t1]
  show False by blast
qed

text \<open>
  Claim C7. For any instance with exactly one room, exactly two slots and three courses
  that each have minimum quota 1, the model of v4 (and of v3) has no solved assignment,
  so the solver cannot report a feasible timetable: room exclusivity leaves two cells for
  three courses. The instance of the witness is one whose model construction succeeds.
\<close>

theorem pigeonhole_infeasible:
  assumes "length (rooms P) = 1" and "total_slots P = 2" and "length (courses P) = 3"
    and "\<forall>c \<in> set (course_indices P).
           map_of (course_min_lectures P) (courses P ! c) = Some 1"
  shows "\<not> solution_of (v3_model ge_check P) x \<and> \<not> solution_of (v4_model ge_check P) x"
  using pigeonhole_cells [OF _ _ _ assms]
  by (auto simp: solution_of_v3 solution_of_v4)

theorem pigeonhole_infeasible_witness:
  "length (rooms pigeonhole_problem) = 1 \<and> total_slots pigeonhole_problem = 2 \<and>
   length (courses pigeonhole_problem) = 3 \<and>
   map_of (course_min_lectures pigeonhole_problem) (courses pigeonhole_problem ! 0) = Some 1 \<and>
   map_of (course_min_lectures pigeonhole_problem) (courses pigeonhole_problem ! 1) = Some 1 \<and>
   map_of (course_min_lectures pigeonhole_problem) (courses pigeonhole_problem ! 2) = Some 1 \<and>
   isl (v4_model int64_ge_check pigeonhole_problem) = False \<and>
   \<not> solution_of (v4_model int64_ge_check pigeonhole_problem) demo_schedule"
proof -
  have r: "length (rooms pigeonhole_problem) = 1" by code_simp
  have t: "total_slots pigeonhole_problem = 2" by code_simp
  have c: "length (courses pigeonhole_problem) = 3" by code_simp
  have m0: "map_of (course_min_lectures pigeonhole_problem) (courses pigeonhole_problem ! 0)
            = Some 1" by code_simp
  have m1: "map_of (course_min_lectures pigeonhole_problem) (courses pigeonhole_problem ! 1)
            = Some 1" by code_simp
  have m2: "map_of (course_min_lectures pigeonhole_problem) (courses pigeonhole_problem ! 2)
            = Some 1" by code_simp
  have cs: "set (course_indices pigeonhole_problem) = {0, 1, 2}" by code_simp
  have m: "\<forall>c \<in> set (course_indices pigeonhole_problem).
      map_of (course_min_lectures pigeonhole_problem) (courses pigeonhole_problem ! c) = Some 1"
    unfolding cs using m0 m1 m2 by blast
  have b: "isl (v4_model int64_ge_check pigeonhole_problem) = False" by code_simp
  from pigeonhole_infeasible [OF r t c m, where x = demo_schedule and ge_check = int64_ge_check] r t c m0 m1 m2 b
  show ?thesis by blast
qed

section \<open>Ill-formed input\<close>

lemma traverse_Inl:
  "traverse f as = Inl e \<Longrightarrow> \<exists>a \<in> set as. f a = Inl e"
proof (induction as)
  case Nil
  then show ?case by simp
next
  case (Cons a as)
  then show ?case
    by (cases "f a"; cases "traverse f as") auto
qed

lemma traverse_raises:
  "a \<in> set as \<Longrightarrow> f a = Inl e \<Longrightarrow> \<exists>e'. traverse f as = Inl e'"
proof (induction as)
  case Nil
  then show ?case by simp
next
  case (Cons b bs)
  then show ?case
    by (cases "f b"; cases "traverse f bs") auto
qed

lemma and_then_eq_Inl:
  "and_then m k = Inl e \<longleftrightarrow> m = Inl e \<or> (\<exists>v. m = Inr v \<and> k v = Inl e)"
  by (cases m) simp_all

lemma course_faculty_Inl: "course_faculty P c = Inl e \<Longrightarrow> e = KeyError"
  by (auto simp: course_faculty_def lookup_def split: option.splits)

lemma faculty_exclusivity_Inl:
  assumes "faculty_exclusivity P = Inl e"
  shows "e = KeyError"
proof -
  from traverse_Inl [OF assms [unfolded faculty_exclusivity_def]]
  obtain t f where "and_then (relevant_courses P f)
      (\<lambda>rc. Inr (AtMostOne [(c, t, r). c \<leftarrow> rc, r \<leftarrow> room_indices P])) = Inl e"
    by auto
  then have "relevant_courses P f = Inl e"
    by (auto simp: and_then_eq_Inl)
  then have "traverse (course_faculty P) (course_indices P) = Inl e"
    by (auto simp: relevant_courses_def and_then_eq_Inl)
  from traverse_Inl [OF this] show ?thesis
    by (auto dest: course_faculty_Inl)
qed

lemma unavailability_of_Inl:
  assumes "unavailability_of P c = Inl e"
  shows "e = KeyError"
proof (cases "course_faculty P c")
  case (Inl e')
  with assms show ?thesis
    by (auto simp: unavailability_of_def dest: course_faculty_Inl)
next
  case (Inr f)
  show ?thesis
  proof (cases "map_of (faculty_unavailability P) f")
    case None
    with Inr assms show ?thesis by (simp add: unavailability_of_def)
  next
    case (Some ts)
    with Inr assms have "traverse (\<lambda>(t, r). and_then (x_key P c t r) (\<lambda>v. Inr (EqZero v)))
        [(t, r). t \<leftarrow> ts, r \<leftarrow> room_indices P] = Inl e"
      by (simp add: unavailability_of_def)
    from traverse_Inl [OF this] show ?thesis
      by (auto simp: and_then_eq_Inl x_key_def split: if_splits)
  qed
qed

lemma unavailability_Inl:
  assumes "unavailability P = Inl e"
  shows "e = KeyError"
proof -
  from assms have "traverse (unavailability_of P) (course_indices P) = Inl e"
    by (auto simp: unavailability_def and_then_eq_Inl)
  from traverse_Inl [OF this] show ?thesis
    by (auto dest: unavailability_of_Inl)
qed

lemma unavailability_raises:
  assumes "c \<in> set (course_indices P)" and "unavailability_of P c = Inl e"
  shows "unavailability P = Inl KeyError"
proof -
  from traverse_raises [where f = "unavailability_of P", OF assms]
  obtain e' where "traverse (unavailability_of P) (course_indices P) = Inl e'" by blast
  then have e': "unavailability P = Inl e'" by (simp add: unavailability_def)
  from unavailability_Inl [OF this] e' show ?thesis by simp
qed

lemma model_raises_unavailability:
  assumes "unavailability P = Inl KeyError"
  shows "v2_model P = Inl KeyError \<and> v3_model ge_check P = Inl KeyError"
proof (cases "faculty_exclusivity P")
  case (Inl e)
  from faculty_exclusivity_Inl [OF this] Inl show ?thesis
    by (simp add: v2_model_def v3_model_def)
next
  case (Inr fe)
  with assms show ?thesis by (simp add: v2_model_def v3_model_def)
qed

lemma dangling_faculty_raises:
  assumes "c \<in> set (course_indices P)" and "map_of (faculty P) (courses P ! c) = None"
  shows "v2_model P = Inl KeyError \<and> v3_model ge_check P = Inl KeyError"
proof -
  from assms(2) have "unavailability_of P c = Inl KeyError"
    by (simp add: unavailability_of_def course_faculty_def lookup_def)
  from model_raises_unavailability [OF unavailability_raises [OF assms(1) this]]
  show ?thesis .
qed

lemma dict_values_nonempty: "d \<noteq> [] \<Longrightarrow> dict_values d \<noteq> []"
proof (cases d)
  case Nil
  assume "d \<noteq> []" with Nil show ?thesis by simp
next
  case (Cons kv d')
  obtain k v where kv: "kv = (k, v)" by (cases kv)
  have "map_of d k = Some v" by (simp add: Cons kv)
  then have "v \<in> set (dict_values d)" by (rule map_of_in_dict_values)
  then show ?thesis by auto
qed

lemma dangling_faculty_raises_v4:
  assumes "c \<in> set (course_indices P)" and "map_of (faculty P) (courses P ! c) = None"
    and "time_slots P \<noteq> []" and "faculty P \<noteq> []"
  shows "v4_model ge_check P = Inl KeyError"
proof -
  from assms(4) have "dict_values (faculty P) \<noteq> []" by (rule dict_values_nonempty)
  with assms(3) obtain t f where tf:
    "(t, f) \<in> set [(t, f). t \<leftarrow> time_slots P, f \<leftarrow> dict_values (faculty P)]"
    by (cases "time_slots P"; cases "dict_values (faculty P)") auto
  from assms(2) have "course_faculty P c = Inl KeyError"
    by (simp add: course_faculty_def lookup_def)
  from traverse_raises [where f = "course_faculty P", OF assms(1) this]
  obtain e where "traverse (course_faculty P) (course_indices P) = Inl e" by blast
  then have "and_then (relevant_courses P f)
      (\<lambda>rc. Inr (AtMostOne [(c, t, r). c \<leftarrow> rc, r \<leftarrow> room_indices P])) = Inl e"
    by (simp add: relevant_courses_def)
  with tf have "\<exists>e'. faculty_exclusivity P = Inl e'"
    unfolding faculty_exclusivity_def
    by (intro traverse_raises [where a = "(t, f)" and e = e]) auto
  then obtain e' where e': "faculty_exclusivity P = Inl e'" by blast
  from faculty_exclusivity_Inl [OF this] e' show ?thesis
    by (simp add: v4_model_def)
qed

lemma bad_slot_raises:
  assumes "c \<in> set (course_indices P)" and "map_of (faculty P) (courses P ! c) = Some f"
    and "map_of (faculty_unavailability P) f = Some ts" and "s \<in> set ts"
    and "s < 0 \<or> total_slots P \<le> s" and "rooms P \<noteq> []"
  shows "v2_model P = Inl KeyError \<and> v3_model ge_check P = Inl KeyError"
proof -
  from assms(6) have "0 \<in> set (room_indices P)" by (simp add: room_indices_def)
  with assms(4) have m: "(s, 0) \<in> set [(t, r). t \<leftarrow> ts, r \<leftarrow> room_indices P]" by auto
  from assms(5) have "and_then (x_key P c s 0) (\<lambda>v. Inr (EqZero v)) = Inl KeyError"
    by (auto simp: x_key_def)
  then have "\<exists>e. traverse (\<lambda>(t, r). and_then (x_key P c t r) (\<lambda>v. Inr (EqZero v)))
        [(t, r). t \<leftarrow> ts, r \<leftarrow> room_indices P] = Inl e"
    by (intro traverse_raises [OF m, where e = KeyError]) simp
  then obtain e where "unavailability_of P c = Inl e"
    using assms(2,3) by (auto simp: unavailability_of_def course_faculty_def lookup_def)
  from model_raises_unavailability [OF unavailability_raises [OF assms(1) this]]
  show ?thesis .
qed

lemma filter_concat_le:
  assumes "\<And>t. t \<in> set ts \<Longrightarrow> length (filter p (f t)) \<le> 1"
  shows "length (filter p (concat (map f ts))) \<le> length ts"
  using assms
proof (induction ts)
  case Nil
  then show ?case by simp
next
  case (Cons t ts)
  from Cons.prems have "length (filter p (f t)) \<le> 1" by simp
  moreover from Cons have "length (filter p (concat (map f ts))) \<le> length ts" by simp
  ultimately show ?case by simp
qed

lemma single_room_holds:
  assumes "satisfies x (single_room P)"
    and "c \<in> set (course_indices P)" and "t \<in> set (time_slots P)"
  shows "length (filter x [(c, t, r). r \<leftarrow> room_indices P]) \<le> 1"
proof -
  have "AtMostOne [(c, t, r). r \<leftarrow> room_indices P] \<in> set (single_room P)"
    using assms(2,3) by (auto simp: single_room_def)
  with assms(1) have "lin_val x [(c, t, r). r \<leftarrow> room_indices P] \<le> 1"
    by (auto simp: satisfies_iff)
  then show ?thesis by (simp add: lin_val_def)
qed

lemma course_count_le_slots:
  assumes "satisfies x (single_room P)" and "c \<in> set (course_indices P)"
  shows "length (filter x [(c, t, r). t \<leftarrow> time_slots P, r \<leftarrow> room_indices P])
         \<le> length (time_slots P)"
  using single_room_holds [OF assms]
  by (rule filter_concat_le)

lemma over_quota_unsolvable:
  assumes "c \<in> set (course_indices P)"
    and "map_of (course_min_lectures P) (courses P ! c) = Some m"
    and "int (length (time_slots P)) < m"
  shows "\<not> solution_of (v3_model ge_check P) x \<and> \<not> solution_of (v4_model ge_check P) x"
proof -
  have False if sr: "satisfies x (single_room P)"
    and ml: "min_lectures ge_check P = Inr ml" "satisfies x ml" for ml
  proof -
    from min_lectures_holds [OF ml assms(1,2)] course_count_le_slots [OF sr assms(1)] assms(3)
    show False by simp
  qed
  then show ?thesis
    by (auto simp: solution_of_v3 solution_of_v4)
qed

lemma traverse_total:
  "(\<And>a. a \<in> set as \<Longrightarrow> \<exists>b. f a = Inr b) \<Longrightarrow> \<exists>bs. traverse f as = Inr bs"
proof (induction as)
  case Nil
  show ?case by simp
next
  case (Cons a as)
  from Cons.prems [of a] obtain b where b: "f a = Inr b" by auto
  from Cons.IH Cons.prems obtain bs where "traverse f as = Inr bs" by auto
  with b show ?case by simp
qed

lemma index_total: "v \<in> set xs \<Longrightarrow> \<exists>i. index xs v = Inr i"
  by (induction xs) auto

lemma faculty_exclusivity_builds:
  assumes "\<forall>c \<in> set (course_indices P). \<exists>f. map_of (faculty P) (courses P ! c) = Some f"
  shows "\<exists>fe. faculty_exclusivity P = Inr fe"
proof -
  have "\<exists>f. course_faculty P c = Inr f" if "c \<in> set (course_indices P)" for c
    using assms that by (auto simp: course_faculty_def lookup_def)
  then obtain fs where "traverse (course_faculty P) (course_indices P) = Inr fs"
    using traverse_total [where f = "course_faculty P" and as = "course_indices P"] by blast
  then have rc: "\<exists>rc. relevant_courses P f = Inr rc" for f
    by (simp add: relevant_courses_def)
  show ?thesis
    unfolding faculty_exclusivity_def
  proof (rule traverse_total)
    fix tf :: "nat \<times> string"
    obtain t f where tf: "tf = (t, f)" by (cases tf)
    from rc [of f] obtain cs where "relevant_courses P f = Inr cs" by blast
    then show "\<exists>b. (case tf of (t, f) \<Rightarrow> and_then (relevant_courses P f)
        (\<lambda>rc. Inr (AtMostOne [(c, t, r). c \<leftarrow> rc, r \<leftarrow> room_indices P]))) = Inr b"
      by (simp add: tf)
  qed
qed

lemma shared_students_builds:
  assumes "\<forall>pair \<in> set (shared_students P).
             fst pair \<in> set (courses P) \<and> snd pair \<in> set (courses P)"
  shows "\<exists>sh. shared_students_overlap P = Inr sh"
proof -
  have "\<exists>cs. shared_pair P pair = Inr cs" if "pair \<in> set (shared_students P)" for pair
  proof -
    from assms that obtain i j where "index (courses P) (fst pair) = Inr i"
      "index (courses P) (snd pair) = Inr j"
      using index_total by metis
    then show ?thesis by (simp add: shared_pair_def)
  qed
  then obtain css where "traverse (shared_pair P) (shared_students P) = Inr css"
    using traverse_total [where f = "shared_pair P" and as = "shared_students P"] by blast
  then show ?thesis by (simp add: shared_students_overlap_def)
qed

lemma min_lectures_builds:
  assumes "\<forall>c \<in> set (course_indices P).
             \<exists>m. map_of (course_min_lectures P) (courses P ! c) = Some m \<and> ge_check m = None"
  shows "\<exists>ml. min_lectures ge_check P = Inr ml"
  unfolding min_lectures_def
proof (rule traverse_total)
  fix c assume "c \<in> set (course_indices P)"
  with assms obtain m where "map_of (course_min_lectures P) (courses P ! c) = Some m"
    "ge_check m = None" by blast
  then show "\<exists>b. and_then (lookup (course_min_lectures P) (courses P ! c))
      (\<lambda>m. sum_ge ge_check [(c, t, r). t \<leftarrow> time_slots P, r \<leftarrow> room_indices P] m) = Inr b"
    by (simp add: lookup_def sum_ge_def)
qed

lemma unavailability_builds:
  assumes fac: "\<forall>c \<in> set (course_indices P). \<exists>f. map_of (faculty P) (courses P ! c) = Some f"
    and slots: "\<forall>c \<in> set (course_indices P). \<forall>f ts.
             map_of (faculty P) (courses P ! c) = Some f \<longrightarrow>
             map_of (faculty_unavailability P) f = Some ts \<longrightarrow>
             (\<forall>s \<in> set ts. 0 \<le> s \<and> s < total_slots P)"
  shows "\<exists>un. unavailability P = Inr un"
proof -
  have "\<exists>cs. unavailability_of P c = Inr cs" if c: "c \<in> set (course_indices P)" for c
  proof -
    from fac c obtain f where f: "map_of (faculty P) (courses P ! c) = Some f" by blast
    show ?thesis
    proof (cases "map_of (faculty_unavailability P) f")
      case None
      with f show ?thesis
        by (simp add: unavailability_of_def course_faculty_def lookup_def)
    next
      case (Some ts)
      with slots c f have rng: "\<forall>s \<in> set ts. 0 \<le> s \<and> s < total_slots P" by blast
      have "\<exists>cs. traverse (\<lambda>(t, r). and_then (x_key P c t r) (\<lambda>v. Inr (EqZero v)))
             [(t, r). t \<leftarrow> ts, r \<leftarrow> room_indices P] = Inr cs"
        using rng by (intro traverse_total) (auto simp: x_key_def)
      with f Some show ?thesis
        by (simp add: unavailability_of_def course_faculty_def lookup_def)
    qed
  qed
  then obtain css where "traverse (unavailability_of P) (course_indices P) = Inr css"
    using traverse_total [where f = "unavailability_of P" and as = "course_indices P"] by blast
  then show ?thesis by (simp add: unavailability_def)
qed

lemma models_build:
  assumes fac: "\<forall>c \<in> set (course_indices P). \<exists>f. map_of (faculty P) (courses P ! c) = Some f"
    and shared: "\<forall>pair \<in> set (shared_students P).
             fst pair \<in> set (courses P) \<and> snd pair \<in> set (courses P)"
    and quota: "\<forall>c \<in> set (course_indices P).
             \<exists>m. map_of (course_min_lectures P) (courses P ! c) = Some m \<and> ge_check m = None"
  shows "(\<exists>cs. v4_model ge_check P = Inr cs) \<and>
         ((\<forall>c \<in> set (course_indices P). \<forall>f ts.
             map_of (faculty P) (courses P ! c) = Some f \<longrightarrow>
             map_of (faculty_unavailability P) f = Some ts \<longrightarrow>
             (\<forall>s \<in> set ts. 0 \<le> s \<and> s < total_slots P)) \<longrightarrow>
          (\<exists>cs. v3_model ge_check P = Inr cs))"
proof -
  from faculty_exclusivity_builds [OF fac] obtain fe where fe: "faculty_exclusivity P = Inr fe"
    by blast
  from shared_students_builds [OF shared] obtain sh where sh: "shared_students_overlap P = Inr sh"
    by blast
  from min_lectures_builds [OF quota] obtain ml where ml: "min_lectures ge_check P = Inr ml"
    by blast
  have "\<exists>cs. v4_model ge_check P = Inr cs"
    by (simp add: v4_model_def fe sh ml)
  moreover have "\<exists>cs. v3_model ge_check P = Inr cs"
    if "\<forall>c \<in> set (course_indices P). \<forall>f ts.
             map_of (faculty P) (courses P ! c) = Some f \<longrightarrow>
             map_of (faculty_unavailability P) f = Some ts \<longrightarrow>
             (\<forall>s \<in> set ts. 0 \<le> s \<and> s < total_slots P)"
  proof -
    from unavailability_builds [OF fac that] obtain un where "unavailability P = Inr un"
      by blast
    then show ?thesis by (simp add: v3_model_def fe sh ml)
  qed
  ultimately show ?thesis by blast
qed

text \<open>
  Claim C9, as amended. The scripts have no validation step and no \<^verbatim>\<open>ValidationError\<close>.
  For a course index \<open>c\<close>:
  \<^item> if the course has no entry in \<open>faculty\<close>, building the model raises \<^verbatim>\<open>KeyError\<close>
    in v2 and v3, and in v4 when there is at least one slot and one faculty entry;
  \<^item> if an unavailable slot of the course's faculty is outside \<open>[0, total_slots)\<close> and
    there is a room, building the model raises \<^verbatim>\<open>KeyError\<close> in v2 and v3;
  \<^item> if the course's quota exceeds the number of slots, the model of v3 and v4 has no
    solved assignment;
  \<^item> the size of a quota raises nothing: when every course has a faculty entry and a
    quota that the library accepts as a constant, and every name in \<open>shared_students\<close>
    is a course, v4 builds its model, and so does v3 when the unavailable slots of the
    teaching faculty are in range.
\<close>

theorem construction_raises_or_builds:
  assumes "c \<in> set (course_indices P)"
  shows "(map_of (faculty P) (courses P ! c) = None \<longrightarrow>
            v2_model P = Inl KeyError \<and> v3_model ge_check P = Inl KeyError \<and>
            (time_slots P \<noteq> [] \<and> faculty P \<noteq> [] \<longrightarrow> v4_model ge_check P = Inl KeyError)) \<and>
         (map_of (faculty P) (courses P ! c) = Some f \<and>
          map_of (faculty_unavailability P) f = Some ts \<and> s \<in> set ts \<and>
          (s < 0 \<or> total_slots P \<le> s) \<and> rooms P \<noteq> [] \<longrightarrow>
            v2_model P = Inl KeyError \<and> v3_model ge_check P = Inl KeyError) \<and>
         (map_of (course_min_lectures P) (courses P ! c) = Some m \<and>
          int (length (time_slots P)) < m \<longrightarrow>
            \<not> solution_of (v3_model ge_check P) x \<and> \<not> solution_of (v4_model ge_check P) x) \<and>
         ((\<forall>c \<in> set (course_indices P). \<exists>f. map_of (faculty P) (courses P ! c) = Some f) \<and>
          (\<forall>pair \<in> set (shared_students P).
             fst pair \<in> set (courses P) \<and> snd pair \<in> set (courses P)) \<and>
          (\<forall>c \<in> set (course_indices P).
             \<exists>m. map_of (course_min_lectures P) (courses P ! c) = Some m \<and> ge_check m = None) \<longrightarrow>
            (\<exists>cs. v4_model ge_check P = Inr cs) \<and>
            ((\<forall>c \<in> set (course_indices P). \<forall>f ts.
                map_of (faculty P) (courses P ! c) = Some f \<longrightarrow>
                map_of (faculty_unavailability P) f = Some ts \<longrightarrow>
                (\<forall>s \<in> set ts. 0 \<le> s \<and> s < total_slots P)) \<longrightarrow>
             (\<exists>cs. v3_model ge_check P = Inr cs)))"
proof -
  note a = dangling_faculty_raises [OF assms, where ge_check = ge_check]
    dangling_faculty_raises_v4 [OF assms, where ge_check = ge_check]
  note b = bad_slot_raises [OF assms, where f = f and ts = ts and s = s and ge_check = ge_check]
  note c = over_quota_unsolvable [OF assms, where m = m and x = x and ge_check = ge_check]
  note d = models_build [where P = P and ge_check = ge_check]
  from a have 1: "map_of (faculty P) (courses P ! c) = None \<longrightarrow>
            v2_model P = Inl KeyError \<and> v3_model ge_check P = Inl KeyError \<and>
            (time_slots P \<noteq> [] \<and> faculty P \<noteq> [] \<longrightarrow> v4_model ge_check P = Inl KeyError)"
    by blast
  from b have 2: "map_of (faculty P) (courses P ! c) = Some f \<and>
          map_of (faculty_unavailability P) f = Some ts \<and> s \<in> set ts \<and>
          (s < 0 \<or> total_slots P \<le> s) \<and> rooms P \<noteq> [] \<longrightarrow>
            v2_model P = Inl KeyError \<and> v3_model ge_check P = Inl KeyError"
    by blast
  from c have 3: "map_of (course_min_lectures P) (courses P ! c) = Some m \<and>
          int (length (time_slots P)) < m \<longrightarrow>
            \<not> solution_of (v3_model ge_check P) x \<and> \<not> solution_of (v4_model ge_check P) x"
    by blast
  from 1 2 3 d show ?thesis by blast
qed

theorem construction_raises_or_builds_witness:
  "(1 \<in> set (course_indices no_faculty_problem) \<and>
    map_of (faculty no_faculty_problem) (courses no_faculty_problem ! 1) = None \<and>
    time_slots no_faculty_problem \<noteq> [] \<and> faculty no_faculty_problem \<noteq> [] \<and>
    v3_model int64_ge_check no_faculty_problem = Inl KeyError \<and>
    v4_model int64_ge_check no_faculty_problem = Inl KeyError) \<and>
   (0 \<in> set (course_indices bad_slot_problem) \<and>
    map_of (faculty bad_slot_problem) (courses bad_slot_problem ! 0) = Some ''Dr.A'' \<and>
    map_of (faculty_unavailability bad_slot_problem) ''Dr.A'' = Some [2] \<and>
    (2::int) \<in> set [2] \<and> total_slots bad_slot_problem \<le> 2 \<and> rooms bad_slot_problem \<noteq> [] \<and>
    v3_model int64_ge_check bad_slot_problem = Inl KeyError) \<and>
   (course_indices over_quota_problem = [0, 1] \<and>
    map_of (faculty over_quota_problem) (courses over_quota_problem ! 0) = Some ''Dr.A'' \<and>
    map_of (faculty over_quota_problem) (courses over_quota_problem ! 1) = Some ''Dr.B'' \<and>
    shared_students over_quota_problem = [(''AI'', ''ML'')] \<and>
    ''AI'' \<in> set (courses over_quota_problem) \<and> ''ML'' \<in> set (courses over_quota_problem) \<and>
    map_of (course_min_lectures over_quota_problem) (courses over_quota_problem ! 0) = Some 3 \<and>
    map_of (course_min_lectures over_quota_problem) (courses over_quota_problem ! 1) = Some 1 \<and>
    int64_ge_check 3 = None \<and> int64_ge_check 1 = None \<and>
    map_of (faculty_unavailability over_quota_problem) ''Dr.A'' = Some [0] \<and>
    map_of (faculty_unavailability over_quota_problem) ''Dr.B'' = None \<and>
    (0::int) < total_slots over_quota_problem \<and>
    int (length (time_slots over_quota_problem)) < 3 \<and>
    isl (v4_model int64_ge_check over_quota_problem) = False \<and>
    isl (v3_model int64_ge_check over_quota_problem) = False \<and>
    \<not> solution_of (v4_model int64_ge_check over_quota_problem) demo_schedule)"
proof -
  have a1: "1 \<in> set (course_indices no_faculty_problem)" by code_simp
  have a2: "map_of (faculty no_faculty_problem) (courses no_faculty_problem ! 1) = None"
    by code_simp
  have a3: "time_slots no_faculty_problem \<noteq> []" by code_simp
  have a4: "faculty no_faculty_problem \<noteq> []" by code_simp
  have b1: "0 \<in> set (course_indices bad_slot_problem)" by code_simp
  have b2: "map_of (faculty bad_slot_problem) (courses bad_slot_problem ! 0) = Some ''Dr.A''"
    by code_simp
  have b3: "map_of (faculty_unavailability bad_slot_problem) ''Dr.A'' = Some [2]"
    by code_simp
  have b4: "(2::int) \<in> set [2]" by simp
  have b5: "total_slots bad_slot_problem \<le> 2" by code_simp
  have b6: "rooms bad_slot_problem \<noteq> []" by code_simp
  have c0: "course_indices over_quota_problem = [0, 1]" by code_simp
  have f0: "map_of (faculty over_quota_problem) (courses over_quota_problem ! 0) = Some ''Dr.A''"
    by code_simp
  have f1: "map_of (faculty over_quota_problem) (courses over_quota_problem ! 1) = Some ''Dr.B''"
    by code_simp
  have sh: "shared_students over_quota_problem = [(''AI'', ''ML'')]" by code_simp
  have n0: "''AI'' \<in> set (courses over_quota_problem)" by code_simp
  have n1: "''ML'' \<in> set (courses over_quota_problem)" by code_simp
  have q0: "map_of (course_min_lectures over_quota_problem) (courses over_quota_problem ! 0)
            = Some 3" by code_simp
  have q1: "map_of (course_min_lectures over_quota_problem) (courses over_quota_problem ! 1)
            = Some 1" by code_simp
  have g3: "int64_ge_check 3 = None" by code_simp
  have g1: "int64_ge_check 1 = None" by code_simp
  have u0: "map_of (faculty_unavailability over_quota_problem) ''Dr.A'' = Some [0]"
    by code_simp
  have u1: "map_of (faculty_unavailability over_quota_problem) ''Dr.B'' = None" by code_simp
  have tp: "(0::int) < total_slots over_quota_problem" by code_simp
  have c3: "int (length (time_slots over_quota_problem)) < 3" by code_simp
  have c1: "0 \<in> set (course_indices over_quota_problem)" by (simp add: c0)
  have fac: "\<forall>c \<in> set (course_indices over_quota_problem).
      \<exists>f. map_of (faculty over_quota_problem) (courses over_quota_problem ! c) = Some f"
    unfolding c0 using f0 f1 by simp
  have shared: "\<forall>pair \<in> set (shared_students over_quota_problem).
      fst pair \<in> set (courses over_quota_problem) \<and> snd pair \<in> set (courses over_quota_problem)"
    unfolding sh using n0 n1 by simp
  have quota: "\<forall>c \<in> set (course_indices over_quota_problem).
      \<exists>m. map_of (course_min_lectures over_quota_problem) (courses over_quota_problem ! c) = Some m
          \<and> int64_ge_check m = None"
    unfolding c0 using q0 q1 g3 g1 by simp
  have slots: "\<forall>c \<in> set (course_indices over_quota_problem). \<forall>f ts.
      map_of (faculty over_quota_problem) (courses over_quota_problem ! c) = Some f \<longrightarrow>
      map_of (faculty_unavailability over_quota_problem) f = Some ts \<longrightarrow>
      (\<forall>s \<in> set ts. 0 \<le> s \<and> s < total_slots over_quota_problem)"
    unfolding c0 using f0 f1 u0 u1 tp by auto
  from construction_raises_or_builds [OF a1, where ge_check = int64_ge_check] a2 a3 a4
  have A: "v3_model int64_ge_check no_faculty_problem = Inl KeyError \<and>
           v4_model int64_ge_check no_faculty_problem = Inl KeyError"
    by blast
  from construction_raises_or_builds [OF b1, where ge_check = int64_ge_check
      and f = "''Dr.A''" and ts = "[2]" and s = 2] b2 b3 b4 b5 b6
  have B: "v3_model int64_ge_check bad_slot_problem = Inl KeyError" by blast
  note C = construction_raises_or_builds [OF c1, where ge_check = int64_ge_check
      and m = 3 and x = demo_schedule]
  from C q0 c3
  have C1: "\<not> solution_of (v4_model int64_ge_check over_quota_problem) demo_schedule" by blast
  from C fac shared quota
  have "\<exists>cs. v4_model int64_ge_check over_quota_problem = Inr cs" by blast
  then have C2: "isl (v4_model int64_ge_check over_quota_problem) = False" by auto
  from C fac shared quota slots
  have "\<exists>cs. v3_model int64_ge_check over_quota_problem = Inr cs" by blast
  then have C3: "isl (v3_model int64_ge_check over_quota_problem) = False" by auto
  from a1 a2 a3 a4 b1 b2 b3 b4 b5 b6 A B
  have AB: "(1 \<in> set (course_indices no_faculty_problem) \<and>
    map_of (faculty no_faculty_problem) (courses no_faculty_problem ! 1) = None \<and>
    time_slots no_faculty_problem \<noteq> [] \<and> faculty no_faculty_problem \<noteq> [] \<and>
    v3_model int64_ge_check no_faculty_problem = Inl KeyError \<and>
    v4_model int64_ge_check no_faculty_problem = Inl KeyError) \<and>
   (0 \<in> set (course_indices bad_slot_problem) \<and>
    map_of (faculty bad_slot_problem) (courses bad_slot_problem ! 0) = Some ''Dr.A'' \<and>
    map_of (faculty_unavailability bad_slot_problem) ''Dr.A'' = Some [2] \<and>
    (2::int) \<in> set [2] \<and> total_slots bad_slot_problem \<le> 2 \<and> rooms bad_slot_problem \<noteq> [] \<and>
    v3_model int64_ge_check bad_slot_problem = Inl KeyError)"
    by blast
  from AB c0 f0 f1 sh n0 n1 q0 q1 g3 g1 u0 u1 tp c3 C1 C2 C3 show ?thesis by blast
qed

text \<open>A quota of 3 with 2 slots: v3 and v4 build their model without raising.\<close>

theorem over_quota_builds_counterexample:
  "map_of (course_min_lectures over_quota_problem) (courses over_quota_problem ! 0) = Some 3 \<and>
   total_slots over_quota_problem = 2 \<and>
   \<not> isl (v3_model int64_ge_check over_quota_problem) \<and>
   \<not> isl (v4_model int64_ge_check over_quota_problem)"
  by code_simp

section \<open>The second script uses every slot\<close>

lemma every_slot_used_holds:
  assumes "satisfies x (every_slot_used P)" and "t \<in> set (time_slots P)"
  shows "\<exists>c \<in> set (course_indices P). \<exists>r \<in> set (room_indices P). x (c, t, r)"
proof -
  let ?cells = "[(c, t, r). c \<leftarrow> course_indices P, r \<leftarrow> room_indices P]"
  have "SumGe ?cells 1 \<in> set (every_slot_used P)"
    using assms(2) by (auto simp: every_slot_used_def)
  with assms(1) have "1 \<le> lin_val x ?cells" by (auto simp: satisfies_iff)
  then have "filter x ?cells \<noteq> []" by (auto simp: lin_val_def)
  then obtain v where "v \<in> set (filter x ?cells)"
    by (cases "filter x ?cells") auto
  then show ?thesis by auto
qed

lemma unavailability_faculty:
  assumes "unavailability P = Inr un" and "c \<in> set (course_indices P)"
  shows "\<exists>f. map_of (faculty P) (courses P ! c) = Some f"
proof -
  from assms(1) obtain css where "traverse (unavailability_of P) (course_indices P) = Inr css"
    by (auto simp: unavailability_def and_then_eq_Inr)
  from traverse_member [OF this assms(2)]
  obtain cs where "unavailability_of P c = Inr cs" by auto
  then obtain f where "course_faculty P c = Inr f"
    by (auto simp: unavailability_of_def and_then_eq_Inr)
  then show ?thesis by (auto simp: course_faculty_def lookup_eq_Inr)
qed

lemma entry_Inr:
  assumes "map_of (faculty P) (courses P ! c) = Some f"
  shows "entry P c r = Inr (entry_text (courses P ! c) f (rooms P ! r))"
  using assms by (simp add: entry_def lookup_def)

lemma paren_in_entry_text: "CHR ''('' \<in> set (entry_text cn fn rn)"
  by (simp add: entry_text_def)

lemma join_Cons: "set e \<subseteq> set (join sep (e # es))"
  by (cases es) auto

lemma cell_text_not_Free:
  assumes "es \<noteq> []" and "\<forall>e \<in> set es. CHR ''('' \<in> set e"
  shows "cell_text es \<noteq> ''Free''"
proof -
  from assms(1) obtain e es' where es: "es = e # es'" by (cases es) auto
  with assms(2) have "CHR ''('' \<in> set e" by simp
  with join_Cons [of e "[CHR 0x0A]" es'] have "CHR ''('' \<in> set (cell_text es)"
    by (auto simp: cell_text_def es)
  then show ?thesis by auto
qed

lemma day_label_not_Free: "''Day '' @ s \<noteq> ''Free''"
  by simp

lemma v2_place_Inr:
  assumes "slots_per_day P \<noteq> 0" and "map_of (faculty P) (courses P ! c) = Some f"
  shows "v2_place P (c, t, r) tt =
         Inr (tt (int t div slots_per_day P + 1 :=
                (tt (int t div slots_per_day P + 1))
                  (int t mod slots_per_day P + 1 :=
                     tt (int t div slots_per_day P + 1) (int t mod slots_per_day P + 1) @
                     [entry_text (courses P ! c) f (rooms P ! r)])))"
  using assms by (simp add: v2_place_def floor_div_def modulo_def entry_Inr)

text \<open>The invariant of the printing loop of v2.\<close>

lemma v2_fold:
  assumes "slots_per_day P \<noteq> 0"
    and "\<forall>v \<in> set L. \<exists>f. map_of (faculty P) (courses P ! fst v) = Some f"
  shows "\<exists>tt'. fold_err (v2_place P) L tt = Inr tt' \<and>
           (\<forall>d p. set (tt d p) \<subseteq> set (tt' d p)) \<and>
           (\<forall>d p. \<forall>e \<in> set (tt' d p). e \<in> set (tt d p) \<or> CHR ''('' \<in> set e) \<and>
           (\<forall>v \<in> set L. tt' (int (fst (snd v)) div slots_per_day P + 1)
                              (int (fst (snd v)) mod slots_per_day P + 1) \<noteq> [])"
  using assms(2)
proof (induction L arbitrary: tt)
  case Nil
  show ?case by simp
next
  case (Cons v L)
  obtain c t r where v: "v = (c, t, r)" by (cases v)
  from Cons.prems obtain f where f: "map_of (faculty P) (courses P ! c) = Some f"
    by (auto simp: v)
  let ?d = "int t div slots_per_day P + 1" and ?p = "int t mod slots_per_day P + 1"
  let ?e = "entry_text (courses P ! c) f (rooms P ! r)"
  let ?tt1 = "tt (?d := (tt ?d) (?p := tt ?d ?p @ [?e]))"
  have step: "v2_place P v tt = Inr ?tt1"
    unfolding v by (rule v2_place_Inr [OF assms(1) f])
  from Cons.prems have "\<forall>v \<in> set L. \<exists>f. map_of (faculty P) (courses P ! fst v) = Some f"
    by simp
  from Cons.IH [OF this, of ?tt1]
  obtain tt' where tt': "fold_err (v2_place P) L ?tt1 = Inr tt'"
    and mono: "\<forall>d p. set (?tt1 d p) \<subseteq> set (tt' d p)"
    and orig: "\<forall>d p. \<forall>e \<in> set (tt' d p). e \<in> set (?tt1 d p) \<or> CHR ''('' \<in> set e"
    and used: "\<forall>v \<in> set L. tt' (int (fst (snd v)) div slots_per_day P + 1)
                              (int (fst (snd v)) mod slots_per_day P + 1) \<noteq> []"
    by blast
  have 1: "fold_err (v2_place P) (v # L) tt = Inr tt'"
    by (simp add: step tt')
  have sub: "set (tt d p) \<subseteq> set (?tt1 d p)" for d p by auto
  have 2: "\<forall>d p. set (tt d p) \<subseteq> set (tt' d p)"
    using sub mono by blast
  have new: "e \<in> set (tt d p) \<or> e = ?e" if "e \<in> set (?tt1 d p)" for e d p
    using that by (auto split: if_splits)
  have 3: "\<forall>d p. \<forall>e \<in> set (tt' d p). e \<in> set (tt d p) \<or> CHR ''('' \<in> set e"
    using orig new paren_in_entry_text by metis
  have "?e \<in> set (?tt1 ?d ?p)" by simp
  with mono have "?e \<in> set (tt' ?d ?p)" by blast
  then have "tt' ?d ?p \<noteq> []" by auto
  with used have 4: "\<forall>v \<in> set (v # L). tt' (int (fst (snd v)) div slots_per_day P + 1)
                              (int (fst (snd v)) mod slots_per_day P + 1) \<noteq> []"
    by (simp add: v)
  from 1 2 3 4 show ?case by blast
qed

lemma slot_of_day_period:
  fixes day period days spd :: int
  assumes "1 \<le> day" "day \<le> days" "1 \<le> period" "period \<le> spd"
  defines "t \<equiv> (day - 1) * spd + (period - 1)"
  shows "0 \<le> t" and "t < days * spd" and "t div spd + 1 = day" and "t mod spd + 1 = period"
proof -
  have spd: "0 < spd" using assms by simp
  show "0 \<le> t" using assms by (simp add: t_def)
  have "(day - 1) * spd \<le> (days - 1) * spd"
    using assms spd by (intro mult_right_mono) simp_all
  with \<open>period \<le> spd\<close> have "t \<le> (days - 1) * spd + (spd - 1)"
    unfolding t_def by linarith
  also have "\<dots> < days * spd" by (simp add: algebra_simps)
  finally show "t < days * spd" .
  have p: "0 \<le> period - 1" "period - 1 < spd" using assms by simp_all
  have "t div spd = (day - 1) + (period - 1) div spd"
    unfolding t_def using spd by simp
  with p show "t div spd + 1 = day" by simp
  have "t mod spd = (period - 1) mod spd"
    unfolding t_def by simp
  with p show "t mod spd + 1 = period" by simp
qed

lemma v2_rows_no_Free:
  assumes un: "unavailability P = Inr un" and esu: "satisfies x (every_slot_used P)"
  shows "\<exists>rows. v2_rows P x = Inr rows \<and> ''Free'' \<notin> set (concat rows)"
proof (cases "slots_per_day P = 0")
  case True
  then have "v2_true_cells P x = []"
    by (simp add: v2_true_cells_def time_slots_def total_slots_def)
  then have "v2_rows P x = Inr [v2_row P (\<lambda>day period. []) day. day \<leftarrow> [1..days P]]"
    by (simp add: v2_rows_def v2_timetable_def)
  moreover have "''Free'' \<notin> set (v2_row P (\<lambda>day period. []) day)" for day
    using True by (simp add: v2_row_def)
  ultimately show ?thesis by auto
next
  case False
  let ?L = "v2_true_cells P x"
  have fac: "\<forall>v \<in> set ?L. \<exists>f. map_of (faculty P) (courses P ! fst v) = Some f"
    using unavailability_faculty [OF un] by (auto simp: v2_true_cells_def)
  from v2_fold [OF False fac, of "\<lambda>day period. []"]
  obtain tt where tt: "fold_err (v2_place P) ?L (\<lambda>day period. []) = Inr tt"
    and paren: "\<forall>d p. \<forall>e \<in> set (tt d p). CHR ''('' \<in> set e"
    and used: "\<forall>v \<in> set ?L. tt (int (fst (snd v)) div slots_per_day P + 1)
                              (int (fst (snd v)) mod slots_per_day P + 1) \<noteq> []"
    by auto
  have rows: "v2_rows P x = Inr [v2_row P tt day. day \<leftarrow> [1..days P]]"
    by (simp add: v2_rows_def v2_timetable_def tt)
  have cell: "cell_text (tt day period) \<noteq> ''Free''"
    if day: "1 \<le> day" "day \<le> days P" and period: "1 \<le> period" "period \<le> slots_per_day P"
    for day period
  proof -
    let ?t = "(day - 1) * slots_per_day P + (period - 1)"
    from slot_of_day_period [OF day period]
    have t: "0 \<le> ?t" "?t < days P * slots_per_day P"
      "?t div slots_per_day P + 1 = day" "?t mod slots_per_day P + 1 = period"
      by simp_all
    from t(1,2) have "nat ?t \<in> set (time_slots P)"
      by (simp add: time_slots_def total_slots_def)
    from every_slot_used_holds [OF esu this] this
    obtain c r where "(c, nat ?t, r) \<in> set ?L"
      by (auto simp: v2_true_cells_def)
    with used have "tt (int (nat ?t) div slots_per_day P + 1)
                       (int (nat ?t) mod slots_per_day P + 1) \<noteq> []"
      by force
    with t have "tt day period \<noteq> []" by simp
    then show ?thesis using paren by (intro cell_text_not_Free) auto
  qed
  have "''Free'' \<notin> set (v2_row P tt day)" if "day \<in> set [1..days P]" for day
  proof
    assume "''Free'' \<in> set (v2_row P tt day)"
    then obtain period where "period \<in> set [1..slots_per_day P]"
      and "cell_text (tt day period) = ''Free''"
      by (auto simp: v2_row_def)
    with cell [of day period] that show False by simp
  qed
  with rows show ?thesis by auto
qed

text \<open>
  Claim C10. In the model of v2, every solved assignment has at least one true cell
  \<open>(c, t, r)\<close> at every one of the \<open>days * slots_per_day\<close> time slots; consequently the
  rows that v2 prints for it exist (the printing loop raises nothing) and no cell of them
  is \<^verbatim>\<open>Free\<close>, although \<open>cell_text\<close> has that marker for an empty cell.
\<close>

theorem v2_every_slot_used:
  assumes "solution_of (v2_model P) x"
  shows "(\<forall>t \<in> set (time_slots P).
            \<exists>c \<in> set (course_indices P). \<exists>r \<in> set (room_indices P). x (c, t, r)) \<and>
         (\<exists>rows. v2_rows P x = Inr rows \<and> ''Free'' \<notin> set (concat rows))"
proof -
  from assms obtain un where un: "unavailability P = Inr un"
    and esu: "satisfies x (every_slot_used P)"
    by (auto simp: solution_of_v2)
  from every_slot_used_holds [OF esu] v2_rows_no_Free [OF un esu]
  show ?thesis by blast
qed

theorem v2_every_slot_used_witness:
  "solution_of (v2_model demo_problem) demo_schedule \<and>
   time_slots demo_problem = [0, 1] \<and>
   demo_schedule (1, 0, 0) \<and> demo_schedule (0, 1, 0) \<and>
   v2_rows demo_problem demo_schedule = Inr [[''Day 1'', ''ML (Dr.B, R1)'', ''AI (Dr.A, R1)'']] \<and>
   ''Free'' \<notin> set (concat [[''Day 1'', ''ML (Dr.B, R1)'', ''AI (Dr.A, R1)'']])"
proof -
  have s: "solution_of (v2_model demo_problem) demo_schedule" by code_simp
  have ts: "time_slots demo_problem = [0, 1]" by code_simp
  have x: "demo_schedule (1, 0, 0) \<and> demo_schedule (0, 1, 0)" by code_simp
  have r: "v2_rows demo_problem demo_schedule =
           Inr [[''Day 1'', ''ML (Dr.B, R1)'', ''AI (Dr.A, R1)'']]" by code_simp
  from v2_every_slot_used [OF s] r
  have "''Free'' \<notin> set (concat [[''Day 1'', ''ML (Dr.B, R1)'', ''AI (Dr.A, R1)'']])"
    by auto
  with s ts x r show ?thesis by blast
qed

section \<open>The decoder of v3 and v4\<close>

lemma traverse_Inr_map:
  "(\<And>a. a \<in> set as \<Longrightarrow> f a = Inr (h a)) \<Longrightarrow> traverse f as = Inr (map h as)"
  by (induction as) simp_all

lemma position_nat: "k < n \<Longrightarrow> position n (int k) = Inr k"
  by (simp add: position_def)

lemma item_nat: "k < length xs \<Longrightarrow> item xs (int k) = Inr (xs ! k)"
  by (simp add: item_def position_nat)

lemma append_entry_nat:
  assumes "d < length g" and "p < length (g ! d)"
  shows "append_entry g (int d) (int p) e = Inr (g[d := (g ! d)[p := g ! d ! p @ [e]]])"
  using assms by (simp add: append_entry_def position_nat)

lemma v4_place_Inr:
  assumes "slots_per_day P = int S" and "0 < S"
    and "t div S < length g" and "t mod S < length (g ! (t div S))"
    and "map_of (faculty P) (courses P ! c) = Some f"
  shows "v4_place P (c, t, r) g =
         Inr (g[t div S := (g ! (t div S))[t mod S :=
                g ! (t div S) ! (t mod S) @ [entry_text (courses P ! c) f (rooms P ! r)]]])"
proof -
  have "int t div int S = int (t div S)" "int t mod int S = int (t mod S)"
    by (simp_all add: zdiv_int zmod_int)
  with assms show ?thesis
    by (simp add: v4_place_def floor_div_def modulo_def entry_Inr append_entry_nat)
qed

lemma put_nth:
  assumes "d < length g" and "p < length (g ! d)" and "d' < length g" and "p' < length (g ! d')"
  shows "g[d := (g ! d)[p := g ! d ! p @ [e]]] ! d' ! p' =
         (if d' = d \<and> p' = p then g ! d ! p @ [e] else g ! d' ! p')"
  using assms by (auto simp: nth_list_update)

lemma put_shape:
  assumes "length g = D" and "\<forall>d < D. length (g ! d) = S" and "d < D"
  shows "length (g[d := (g ! d)[p := row]]) = D \<and>
         (\<forall>d' < D. length (g[d := (g ! d)[p := row]] ! d') = S)"
  using assms by (auto simp: nth_list_update)

text \<open>The invariant of the printing loop of v3 and v4.\<close>

lemma v4_fold:
  assumes spd: "slots_per_day P = int S" "0 < S"
    and cells: "\<forall>v \<in> set L. fst (snd v) < D * S \<and>
                  (\<exists>f. map_of (faculty P) (courses P ! fst v) = Some f)"
    and shape: "length g = D" "\<forall>d < D. length (g ! d) = S"
  shows "\<exists>g'. fold_err (v4_place P) L g = Inr g' \<and>
           length g' = D \<and> (\<forall>d < D. length (g' ! d) = S) \<and>
           (\<forall>d < D. \<forall>p < S.
              map Inr (g' ! d ! p) =
              map Inr (g ! d ! p) @
              concat (map (\<lambda>(c, t, r). if t div S = d \<and> t mod S = p then [entry P c r] else []) L))"
  using cells shape
proof (induction L arbitrary: g)
  case Nil
  then show ?case by simp
next
  case (Cons v L)
  obtain c t r where v: "v = (c, t, r)" by (cases v)
  from Cons.prems(1) obtain f where t: "t < D * S"
    and f: "map_of (faculty P) (courses P ! c) = Some f"
    by (auto simp: v)
  from t spd(2) have d: "t div S < D"
    by (simp add: less_mult_imp_div_less)
  from spd(2) have p: "t mod S < S" by simp
  let ?e = "entry_text (courses P ! c) f (rooms P ! r)"
  let ?g1 = "g[t div S := (g ! (t div S))[t mod S := g ! (t div S) ! (t mod S) @ [?e]]]"
  from d p Cons.prems(2,3)
  have step: "v4_place P v g = Inr ?g1"
    unfolding v by (intro v4_place_Inr [OF spd _ _ f]) simp_all
  from put_shape [OF Cons.prems(2,3) d]
  have shape1: "length ?g1 = D" "\<forall>d < D. length (?g1 ! d) = S" by simp_all
  from Cons.prems(1) have "\<forall>v \<in> set L. fst (snd v) < D * S \<and>
      (\<exists>f. map_of (faculty P) (courses P ! fst v) = Some f)" by simp
  from Cons.IH [OF this shape1]
  obtain g' where g': "fold_err (v4_place P) L ?g1 = Inr g'"
    and shape': "length g' = D" "\<forall>d < D. length (g' ! d) = S"
    and cont: "\<forall>d < D. \<forall>p < S.
              map Inr (g' ! d ! p) =
              map Inr (?g1 ! d ! p) @
              concat (map (\<lambda>(c, t, r). if t div S = d \<and> t mod S = p then [entry P c r] else []) L)"
    by blast
  have e: "entry P c r = Inr ?e" by (rule entry_Inr [OF f])
  have "map Inr (g' ! d' ! p') =
        map Inr (g ! d' ! p') @
        concat (map (\<lambda>(c, t, r). if t div S = d' \<and> t mod S = p' then [entry P c r] else [])
                  (v # L))"
    if d': "d' < D" and p': "p' < S" for d' p'
  proof -
    have "?g1 ! d' ! p' =
          (if d' = t div S \<and> p' = t mod S then g ! (t div S) ! (t mod S) @ [?e]
           else g ! d' ! p')"
      using d p d' p' Cons.prems(2,3) by (intro put_nth) simp_all
    with cont d' p' show ?thesis
      by (auto simp: v e)
  qed
  with g' shape' step show ?case by (simp add: and_then_def)
qed

lemma v4_row_Inr:
  assumes "nat (slots_per_day P) = S" and "d < length g" and "length (g ! d) = S"
  shows "v4_row P g d = Inr ((''Day '' @ str (d + 1)) # map cell_text (g ! d))"
proof -
  have "traverse
          (\<lambda>period. and_then (item g (int d)) (\<lambda>row.
                     and_then (item row (int period)) (\<lambda>cell_entries.
                       Inr (cell_text cell_entries))))
          [0..<S] = Inr (map (\<lambda>p. cell_text (g ! d ! p)) [0..<S])"
    using assms(2,3) by (intro traverse_Inr_map) (simp add: item_nat)
  moreover have "map (\<lambda>p. cell_text (g ! d ! p)) [0..<S] = map cell_text (g ! d)"
    using assms(3) by (intro nth_equalityI) simp_all
  ultimately show ?thesis
    by (simp add: v4_row_def assms(1))
qed

lemma v4_table_data_Inr:
  assumes "nat (slots_per_day P) = S" and "length g = nat (days P)"
    and "\<forall>d < nat (days P). length (g ! d) = S"
  shows "v4_table_data P g =
         Inr (map (\<lambda>d. (''Day '' @ str (d + 1)) # map cell_text (g ! d)) [0..<nat (days P)])"
  unfolding v4_table_data_def
  using assms by (intro traverse_Inr_map v4_row_Inr) simp_all

lemma concat_map_none:
  "(\<And>t. t \<in> set ts \<Longrightarrow> \<not> q t) \<Longrightarrow> concat (map (\<lambda>t. if q t then F t else []) ts) = []"
  by (induction ts) simp_all

lemma concat_map_single:
  assumes "k < n" and "\<And>t. t < n \<Longrightarrow> q t \<longleftrightarrow> t = k"
  shows "concat (map (\<lambda>t. if q t then F t else []) [0..<n]) = F k"
  using assms
proof (induction n)
  case 0
  then show ?case by simp
next
  case (Suc n)
  show ?case
  proof (cases "k = n")
    case True
    have "concat (map (\<lambda>t. if q t then F t else []) [0..<n]) = []"
      using Suc.prems(2) True by (intro concat_map_none) auto
    moreover have "q n" using Suc.prems(2) [of n] True by simp
    ultimately show ?thesis using True by simp
  next
    case False
    with Suc.prems(1) have "k < n" by simp
    moreover have "\<not> q n" using Suc.prems(2) [of n] False by simp
    ultimately show ?thesis using Suc.IH Suc.prems(2) by simp
  qed
qed

lemma select_in_row:
  "concat (map (\<lambda>(c, t, r). if q t then [E c r] else []) [(c, t, r). r \<leftarrow> rs, x (c, t, r)]) =
   (if q t then [E c r. r \<leftarrow> rs, x (c, t, r)] else [])"
  by (induction rs) simp_all

lemma select_in_course:
  assumes "k < n" and "\<And>t. t < n \<Longrightarrow> q t \<longleftrightarrow> t = k"
  shows "concat (map (\<lambda>(c, t, r). if q t then [E c r] else [])
           [(c, t, r). t \<leftarrow> [0..<n], r \<leftarrow> rs, x (c, t, r)]) =
         [E c r. r \<leftarrow> rs, x (c, k, r)]"
proof -
  have "concat (map (\<lambda>(c, t, r). if q t then [E c r] else [])
           (concat (map (\<lambda>t. [(c, t, r). r \<leftarrow> rs, x (c, t, r)]) ts))) =
        concat (map (\<lambda>t. if q t then [E c r. r \<leftarrow> rs, x (c, t, r)] else []) ts)" for ts
    by (induction ts) (simp_all add: select_in_row [where x = x] del: concat_map_singleton)
  from this [of "[0..<n]"] concat_map_single [OF assms, of "\<lambda>t. [E c r. r \<leftarrow> rs, x (c, t, r)]"]
  show ?thesis by simp
qed

lemma select_slot:
  assumes "k < n" and "\<And>t. t < n \<Longrightarrow> q t \<longleftrightarrow> t = k"
  shows "concat (map (\<lambda>(c, t, r). if q t then [E c r] else [])
           [(c, t, r). c \<leftarrow> cs, t \<leftarrow> [0..<n], r \<leftarrow> rs, x (c, t, r)]) =
         [E c r. c \<leftarrow> cs, r \<leftarrow> rs, x (c, k, r)]"
proof (induction cs)
  case Nil
  show ?case by simp
next
  case (Cons c cs)
  from select_in_course [OF assms, where c = c and E = E and rs = rs and x = x] Cons.IH
  show ?case by simp
qed

lemma cell_text_Free_iff:
  assumes "\<forall>e \<in> set es. CHR ''('' \<in> set e"
  shows "cell_text es = ''Free'' \<longleftrightarrow> es = []"
  using cell_text_not_Free [OF _ assms] by (auto simp: cell_text_def)

lemma slot_index:
  fixes S :: nat
  assumes "p < S"
  shows "t div S = d \<and> t mod S = p \<longleftrightarrow> t = d * S + p"
  using assms by auto

lemma slot_in_range:
  fixes S :: nat
  assumes "d < D" and "p < S"
  shows "d * S + p < D * S"
proof -
  from assms(1) have "Suc d \<le> D" by simp
  then have "Suc d * S \<le> D * S" by (rule mult_le_mono1)
  with assms(2) show ?thesis by simp
qed

lemma positive_dimensions:
  assumes "0 \<le> days P \<or> 0 \<le> slots_per_day P" and "time_slots P \<noteq> []"
  shows "0 < days P \<and> 0 < slots_per_day P"
proof -
  from assms(2) have "0 < days P * slots_per_day P"
    by (simp add: time_slots_def total_slots_def)
  with assms(1) show ?thesis
    by (auto simp: zero_less_mult_iff)
qed

lemma v4_timetable_cells:
  assumes wf: "0 \<le> days P \<or> 0 \<le> slots_per_day P"
    and fac: "\<forall>c \<in> set (course_indices P). \<exists>f. map_of (faculty P) (courses P ! c) = Some f"
  shows "\<exists>g. v4_timetable P x = Inr g \<and> length g = nat (days P) \<and>
           (\<forall>d < nat (days P). length (g ! d) = nat (slots_per_day P)) \<and>
           (\<forall>d < nat (days P). \<forall>p < nat (slots_per_day P).
              map Inr (g ! d ! p) =
              [entry P c r. c \<leftarrow> course_indices P, r \<leftarrow> room_indices P,
                 x (c, d * nat (slots_per_day P) + p, r)])"
proof (cases "time_slots P = []")
  case True
  then have "v4_true_cells P x = []" by (simp add: v4_true_cells_def)
  then have g: "v4_timetable P x = Inr (empty_grid P)"
    by (simp add: v4_timetable_def)
  have "False" if "d < nat (days P)" "p < nat (slots_per_day P)" for d p
  proof -
    from that have "0 < days P" "0 < slots_per_day P" by linarith+
    then have "0 < days P * slots_per_day P" by (rule mult_pos_pos)
    with True show False by (simp add: time_slots_def total_slots_def)
  qed
  with g show ?thesis
    by (auto simp: empty_grid_def)
next
  case False
  let ?S = "nat (slots_per_day P)" and ?D = "nat (days P)"
  from positive_dimensions [OF wf False]
  have spd: "slots_per_day P = int ?S" "0 < ?S" and days: "days P = int ?D" by simp_all
  from positive_dimensions [OF wf False]
  have "nat (days P * slots_per_day P) = ?D * ?S"
    by (simp add: nat_mult_distrib)
  then have ts: "time_slots P = [0..<?D * ?S]"
    by (simp add: time_slots_def total_slots_def)
  have cells: "\<forall>v \<in> set (v4_true_cells P x). fst (snd v) < ?D * ?S \<and>
                  (\<exists>f. map_of (faculty P) (courses P ! fst v) = Some f)"
    using fac by (auto simp: v4_true_cells_def ts)
  have shape: "length (empty_grid P) = ?D" "\<forall>d < ?D. length (empty_grid P ! d) = ?S"
    by (simp_all add: empty_grid_def)
  from v4_fold [OF spd cells shape]
  obtain g where g: "v4_timetable P x = Inr g" "length g = ?D" "\<forall>d < ?D. length (g ! d) = ?S"
    and cont: "\<forall>d < ?D. \<forall>p < ?S.
              map Inr (g ! d ! p) =
              map Inr (empty_grid P ! d ! p) @
              concat (map (\<lambda>(c, t, r). if t div ?S = d \<and> t mod ?S = p then [entry P c r] else [])
                        (v4_true_cells P x))"
    unfolding v4_timetable_def by blast
  have "map Inr (g ! d ! p) =
        [entry P c r. c \<leftarrow> course_indices P, r \<leftarrow> room_indices P, x (c, d * ?S + p, r)]"
    if d: "d < ?D" and p: "p < ?S" for d p
  proof -
    have "concat (map (\<lambda>(c, t, r). if t div ?S = d \<and> t mod ?S = p then [entry P c r] else [])
            [(c, t, r). c \<leftarrow> course_indices P, t \<leftarrow> [0..<?D * ?S], r \<leftarrow> room_indices P,
               x (c, t, r)]) =
          [entry P c r. c \<leftarrow> course_indices P, r \<leftarrow> room_indices P, x (c, d * ?S + p, r)]"
      by (rule select_slot [OF slot_in_range [OF d p] slot_index [OF p]])
    moreover have "empty_grid P ! d ! p = []"
      using d p by (simp add: empty_grid_def)
    ultimately show ?thesis
      using cont d p by (simp add: v4_true_cells_def ts)
  qed
  with g show ?thesis by blast
qed

lemma v4_true_cells_cong:
  assumes "\<forall>c \<in> set (course_indices P). \<forall>t \<in> set (time_slots P).
             \<forall>r \<in> set (room_indices P). y (c, t, r) = x (c, t, r)"
  shows "v4_true_cells P y = v4_true_cells P x"
proof -
  have rooms: "concat (map (\<lambda>r. if y (c, t, r) then [(c, t, r)] else []) (room_indices P)) =
        concat (map (\<lambda>r. if x (c, t, r) then [(c, t, r)] else []) (room_indices P))"
    if "c \<in> set (course_indices P)" "t \<in> set (time_slots P)" for c t
    using that assms by (intro arg_cong [where f = concat] map_cong) auto
  have slots: "concat (map (\<lambda>t. concat (map (\<lambda>r. if y (c, t, r) then [(c, t, r)] else [])
                 (room_indices P))) (time_slots P)) =
        concat (map (\<lambda>t. concat (map (\<lambda>r. if x (c, t, r) then [(c, t, r)] else [])
                 (room_indices P))) (time_slots P))"
    if "c \<in> set (course_indices P)" for c
    by (rule arg_cong [where f = concat], rule map_cong) (simp_all add: rooms [OF that])
  show ?thesis
    unfolding v4_true_cells_def
    by (rule arg_cong [where f = concat], rule map_cong) (simp_all add: slots)
qed

lemma v4_headers_nth:
  assumes "p < nat (slots_per_day P)"
  shows "v4_headers P ! (p + 1) = ''P'' @ str (p + 1)"
proof -
  from assms have "nat (slots_per_day P + 1) = Suc (nat (slots_per_day P))" by simp
  with assms show ?thesis by (simp add: v4_headers_def del: upt_Suc)
qed

declare str.simps [simp del]

lemma entries_empty_iff:
  "[entry P c r. c \<leftarrow> cs, r \<leftarrow> rs, x (c, k, r)] = [] \<longleftrightarrow>
   (\<forall>c \<in> set cs. \<forall>r \<in> set rs. \<not> x (c, k, r))"
  by auto

lemma entries_paren:
  assumes fac: "\<forall>c \<in> set cs. \<exists>f. map_of (faculty P) (courses P ! c) = Some f"
    and "map Inr es = [entry P c r. c \<leftarrow> cs, r \<leftarrow> rs, x (c, k, r)]"
  shows "\<forall>e \<in> set es. CHR ''('' \<in> set e"
proof
  fix e assume "e \<in> set es"
  then have "Inr e \<in> Inr ` set es" by blast
  also have "Inr ` set es = set (map Inr es)" by simp
  also have "\<dots> = set [entry P c r. c \<leftarrow> cs, r \<leftarrow> rs, x (c, k, r)]"
    by (simp only: assms(2))
  finally obtain c r where c: "c \<in> set cs" and e: "entry P c r = Inr e"
    by (auto split: if_splits)
  from fac c obtain f where "map_of (faculty P) (courses P ! c) = Some f" by blast
  from entry_Inr [OF this, of r] e show "CHR ''('' \<in> set e"
    by (auto simp: paren_in_entry_text)
qed

lemma v4_decode_cong:
  assumes "\<forall>c \<in> set (course_indices P). \<forall>t \<in> set (time_slots P).
             \<forall>r \<in> set (room_indices P). y (c, t, r) = x (c, t, r)"
  shows "v4_decode P y = v4_decode P x"
  using v4_true_cells_cong [OF assms]
  by (simp add: v4_decode_def v4_timetable_def)

lemma join_lines:
  "es \<noteq> [] \<Longrightarrow> join sep es = hd es @ concat (map (\<lambda>e. sep @ e) (tl es))"
  by (induction sep es rule: join.induct) simp_all

lemma cell_text_lines:
  "cell_text es =
     (if es = [] then ''Free'' else hd es @ concat (map (\<lambda>e. CHR 0x0A # e) (tl es)))"
  by (simp add: cell_text_def join_lines)

lemma join_contains:
  "e \<in> set es \<Longrightarrow> \<exists>pre post. join sep es = pre @ e @ post"
proof (induction sep es rule: join.induct)
  case (1 sep)
  then show ?case by simp
next
  case (2 sep e0)
  then have "join sep [e0] = [] @ e @ []" by simp
  then show ?case by blast
next
  case (3 sep e0 e1 es)
  show ?case
  proof (cases "e = e0")
    case True
    have "join sep (e0 # e1 # es) = [] @ e @ (sep @ join sep (e1 # es))"
      by (simp add: True)
    then show ?thesis by blast
  next
    case False
    with "3.prems" have "e \<in> set (e1 # es)" by simp
    from "3.IH" [OF this] obtain pre post where "join sep (e1 # es) = pre @ e @ post"
      by blast
    then have "join sep (e0 # e1 # es) = (e0 @ sep @ pre) @ e @ post" by simp
    then show ?thesis by blast
  qed
qed

lemma cell_text_contains:
  "e \<in> set es \<Longrightarrow> \<exists>pre post. cell_text es = pre @ e @ post"
  using join_contains [of e es "[CHR 0x0A]"] by (auto simp: cell_text_def)

text \<open>
  Claim C8. For an instance whose day and period counts are not both negative and whose
  courses all have a faculty entry, the decoder of v4 returns for every assignment \<open>x\<close>,
  and its output is a projection of \<open>x\<close>:
  \<^item> the cell of day index \<open>d\<close> and period index \<open>p\<close> holds exactly the entries of the true
    cells \<open>(c, d * slots_per_day + p, r)\<close>, in loop order; in the output table it stands
    in the row labelled \<^verbatim>\<open>Day d+1\<close> under the header \<^verbatim>\<open>Pp+1\<close>, as the first entry followed
    by every further entry after a newline, or as \<^verbatim>\<open>Free\<close> when there is no entry;
  \<^item> that output cell is \<^verbatim>\<open>Free\<close> exactly if no course and room has a true cell at that
    slot;
  \<^item> each true cell at slot \<open>t\<close> has its entry in the cell of day index
    \<open>t div slots_per_day\<close> and period index \<open>t mod slots_per_day\<close>, and the text of that
    entry is a part of the output cell under the labels \<open>t div slots_per_day + 1\<close> and
    \<open>t mod slots_per_day + 1\<close>;
  \<^item> the output depends only on the values of \<open>x\<close> on the grid, so decoding the same
    assignment again gives the same output.
\<close>

theorem v4_decode_projection:
  assumes wf: "0 \<le> days P \<or> 0 \<le> slots_per_day P"
    and fac: "\<forall>c \<in> set (course_indices P). \<exists>f. map_of (faculty P) (courses P ! c) = Some f"
  shows "\<exists>timetable table.
     v4_timetable P x = Inr timetable \<and> v4_decode P x = Inr (v4_headers P, table) \<and>
     length timetable = nat (days P) \<and> length table = nat (days P) \<and>
     (\<forall>d < nat (days P). \<forall>p < nat (slots_per_day P).
        map Inr (timetable ! d ! p) =
          [entry P c r. c \<leftarrow> course_indices P, r \<leftarrow> room_indices P,
             x (c, d * nat (slots_per_day P) + p, r)] \<and>
        table ! d ! 0 = ''Day '' @ str (d + 1) \<and>
        v4_headers P ! (p + 1) = ''P'' @ str (p + 1) \<and>
        table ! d ! (p + 1) = cell_text (timetable ! d ! p) \<and>
        table ! d ! (p + 1) =
          (if timetable ! d ! p = [] then ''Free''
           else hd (timetable ! d ! p) @
                concat (map (\<lambda>e. CHR 0x0A # e) (tl (timetable ! d ! p)))) \<and>
        (table ! d ! (p + 1) = ''Free'' \<longleftrightarrow>
           (\<forall>c \<in> set (course_indices P). \<forall>r \<in> set (room_indices P).
              \<not> x (c, d * nat (slots_per_day P) + p, r)))) \<and>
     (\<forall>c \<in> set (course_indices P). \<forall>t \<in> set (time_slots P). \<forall>r \<in> set (room_indices P).
        x (c, t, r) \<longrightarrow>
          t div nat (slots_per_day P) < nat (days P) \<and>
          t mod nat (slots_per_day P) < nat (slots_per_day P) \<and>
          (\<exists>e pre post. entry P c r = Inr e \<and>
               e \<in> set (timetable ! (t div nat (slots_per_day P)) ! (t mod nat (slots_per_day P))) \<and>
               table ! (t div nat (slots_per_day P)) ! (t mod nat (slots_per_day P) + 1) =
                 pre @ e @ post)) \<and>
     (\<forall>y. (\<forall>c \<in> set (course_indices P). \<forall>t \<in> set (time_slots P).
             \<forall>r \<in> set (room_indices P). y (c, t, r) = x (c, t, r)) \<longrightarrow>
          v4_decode P y = v4_decode P x)"
proof -
  let ?S = "nat (slots_per_day P)" and ?D = "nat (days P)"
  let ?cells = "\<lambda>k. [entry P c r. c \<leftarrow> course_indices P, r \<leftarrow> room_indices P, x (c, k, r)]"
  from v4_timetable_cells [OF wf fac, of x]
  obtain g where g: "v4_timetable P x = Inr g" and len: "length g = ?D"
    and rows: "\<forall>d < ?D. length (g ! d) = ?S"
    and cont: "\<forall>d < ?D. \<forall>p < ?S. map Inr (g ! d ! p) = ?cells (d * ?S + p)"
    by blast
  let ?table = "map (\<lambda>d. (''Day '' @ str (d + 1)) # map cell_text (g ! d)) [0..<?D]"
  have td: "v4_table_data P g = Inr ?table"
    by (rule v4_table_data_Inr [OF refl len rows])
  have dec: "v4_decode P x = Inr (v4_headers P, ?table)"
    by (simp add: v4_decode_def g td)
  have cell: "map Inr (g ! d ! p) = ?cells (d * ?S + p) \<and>
        ?table ! d ! 0 = ''Day '' @ str (d + 1) \<and>
        v4_headers P ! (p + 1) = ''P'' @ str (p + 1) \<and>
        ?table ! d ! (p + 1) = cell_text (g ! d ! p) \<and>
        ?table ! d ! (p + 1) =
          (if g ! d ! p = [] then ''Free''
           else hd (g ! d ! p) @ concat (map (\<lambda>e. CHR 0x0A # e) (tl (g ! d ! p)))) \<and>
        (?table ! d ! (p + 1) = ''Free'' \<longleftrightarrow>
           (\<forall>c \<in> set (course_indices P). \<forall>r \<in> set (room_indices P).
              \<not> x (c, d * ?S + p, r)))"
    if d: "d < ?D" and p: "p < ?S" for d p
  proof -
    from cont d p have c: "map Inr (g ! d ! p) = ?cells (d * ?S + p)" by blast
    from d have row: "?table ! d = (''Day '' @ str (d + 1)) # map cell_text (g ! d)"
      by simp
    from rows d p have "p < length (g ! d)" by simp
    then have t: "?table ! d ! (p + 1) = cell_text (g ! d ! p)"
      using d by simp
    have "cell_text (g ! d ! p) = ''Free'' \<longleftrightarrow> g ! d ! p = []"
      by (rule cell_text_Free_iff [OF entries_paren [OF fac c]])
    also have "\<dots> \<longleftrightarrow> map Inr (g ! d ! p) = ([] :: (error + string) list)" by simp
    also have "\<dots> \<longleftrightarrow> (\<forall>c \<in> set (course_indices P). \<forall>r \<in> set (room_indices P).
              \<not> x (c, d * ?S + p, r))"
      unfolding c by (rule entries_empty_iff)
    finally have free: "cell_text (g ! d ! p) = ''Free'' \<longleftrightarrow>
        (\<forall>c \<in> set (course_indices P). \<forall>r \<in> set (room_indices P). \<not> x (c, d * ?S + p, r))" .
    from t have lines: "?table ! d ! (p + 1) =
          (if g ! d ! p = [] then ''Free''
           else hd (g ! d ! p) @ concat (map (\<lambda>e. CHR 0x0A # e) (tl (g ! d ! p))))"
      by (simp only: cell_text_lines)
    have hd0: "?table ! d ! 0 = ''Day '' @ str (d + 1)" using d by simp
    from t free have free': "?table ! d ! (p + 1) = ''Free'' \<longleftrightarrow>
        (\<forall>c \<in> set (course_indices P). \<forall>r \<in> set (room_indices P). \<not> x (c, d * ?S + p, r))"
      by (simp only:)
    from c hd0 v4_headers_nth [OF p] t lines free' show ?thesis by blast
  qed
  have true_cell: "t div ?S < ?D \<and> t mod ?S < ?S \<and>
      (\<exists>e pre post. entry P c r = Inr e \<and> e \<in> set (g ! (t div ?S) ! (t mod ?S)) \<and>
         ?table ! (t div ?S) ! (t mod ?S + 1) = pre @ e @ post)"
    if c: "c \<in> set (course_indices P)" and t: "t \<in> set (time_slots P)"
      and r: "r \<in> set (room_indices P)" and x: "x (c, t, r)" for c t r
  proof -
    from t have "time_slots P \<noteq> []" by auto
    from positive_dimensions [OF wf this] have pos: "0 < days P" "0 < slots_per_day P"
      by simp_all
    then have "nat (days P * slots_per_day P) = ?D * ?S" by (simp add: nat_mult_distrib)
    with t have tlt: "t < ?D * ?S" by (simp add: time_slots_def total_slots_def)
    from pos have S: "0 < ?S" by simp
    from tlt S have d: "t div ?S < ?D" by (simp add: less_mult_imp_div_less)
    from S have p: "t mod ?S < ?S" by simp
    from cont d p have "map Inr (g ! (t div ?S) ! (t mod ?S)) = ?cells (t div ?S * ?S + t mod ?S)"
      by blast
    then have m: "map Inr (g ! (t div ?S) ! (t mod ?S)) = ?cells t" by simp
    from fac c obtain f where "map_of (faculty P) (courses P ! c) = Some f" by blast
    from entry_Inr [OF this, of r] obtain e where e: "entry P c r = Inr e" by blast
    from c r x have "entry P c r \<in> set (?cells t)" by auto
    then have "Inr e \<in> set (map Inr (g ! (t div ?S) ! (t mod ?S)) :: (error + string) list)"
      by (simp only: m e)
    then have mem: "e \<in> set (g ! (t div ?S) ! (t mod ?S))" by auto
    from cell [OF d p] have "?table ! (t div ?S) ! (t mod ?S + 1) =
        cell_text (g ! (t div ?S) ! (t mod ?S))" by blast
    moreover from cell_text_contains [OF mem] obtain pre post
      where "cell_text (g ! (t div ?S) ! (t mod ?S)) = pre @ e @ post" by blast
    ultimately have "?table ! (t div ?S) ! (t mod ?S + 1) = pre @ e @ post" by simp
    with d p e mem show ?thesis by blast
  qed
  have lt: "length ?table = nat (days P)" by simp
  have A: "(\<forall>d < nat (days P). \<forall>p < nat (slots_per_day P).
        map Inr (g ! d ! p) =
          [entry P c r. c \<leftarrow> course_indices P, r \<leftarrow> room_indices P,
             x (c, d * nat (slots_per_day P) + p, r)] \<and>
        ?table ! d ! 0 = ''Day '' @ str (d + 1) \<and>
        v4_headers P ! (p + 1) = ''P'' @ str (p + 1) \<and>
        ?table ! d ! (p + 1) = cell_text (g ! d ! p) \<and>
        ?table ! d ! (p + 1) =
          (if g ! d ! p = [] then ''Free''
           else hd (g ! d ! p) @
                concat (map (\<lambda>e. CHR 0x0A # e) (tl (g ! d ! p)))) \<and>
        (?table ! d ! (p + 1) = ''Free'' \<longleftrightarrow>
           (\<forall>c \<in> set (course_indices P). \<forall>r \<in> set (room_indices P).
              \<not> x (c, d * nat (slots_per_day P) + p, r))))"
    using cell by blast
  have B: "(\<forall>c \<in> set (course_indices P). \<forall>t \<in> set (time_slots P). \<forall>r \<in> set (room_indices P).
        x (c, t, r) \<longrightarrow>
          t div nat (slots_per_day P) < nat (days P) \<and>
          t mod nat (slots_per_day P) < nat (slots_per_day P) \<and>
          (\<exists>e pre post. entry P c r = Inr e \<and>
               e \<in> set (g ! (t div nat (slots_per_day P)) ! (t mod nat (slots_per_day P))) \<and>
               ?table ! (t div nat (slots_per_day P)) ! (t mod nat (slots_per_day P) + 1) =
                 pre @ e @ post))"
    using true_cell by blast
  have C: "(\<forall>y. (\<forall>c \<in> set (course_indices P). \<forall>t \<in> set (time_slots P).
             \<forall>r \<in> set (room_indices P). y (c, t, r) = x (c, t, r)) \<longrightarrow>
          v4_decode P y = v4_decode P x)"
    using v4_decode_cong [of P _ x] by blast
  show ?thesis
    apply (rule exI [where x = g])
    apply (rule exI [where x = ?table])
    using g dec len lt A B C apply (intro conjI)
          apply assumption+
    done
qed

theorem v4_decode_projection_witness:
  "(0 \<le> days demo_problem \<or> 0 \<le> slots_per_day demo_problem) \<and>
   course_indices demo_problem = [0, 1] \<and>
   map_of (faculty demo_problem) (courses demo_problem ! 0) = Some ''Dr.A'' \<and>
   map_of (faculty demo_problem) (courses demo_problem ! 1) = Some ''Dr.B'' \<and>
   lone_schedule (0, 1, 0) \<and>
   v4_headers demo_problem = [''Day/Period'', ''P1'', ''P2''] \<and>
   v4_decode demo_problem lone_schedule =
     Inr ([''Day/Period'', ''P1'', ''P2''], [[''Day 1'', ''Free'', ''AI (Dr.A, R1)'']]) \<and>
   (0 \<le> days two_room_problem \<or> 0 \<le> slots_per_day two_room_problem) \<and>
   course_indices two_room_problem = [0, 1, 2] \<and>
   map_of (faculty two_room_problem) (courses two_room_problem ! 0) = Some ''Dr.A'' \<and>
   map_of (faculty two_room_problem) (courses two_room_problem ! 1) = Some ''Dr.A'' \<and>
   map_of (faculty two_room_problem) (courses two_room_problem ! 2) = Some ''Dr.C'' \<and>
   two_room_schedule (0, 0, 0) \<and> two_room_schedule (2, 0, 1) \<and> two_room_schedule (1, 1, 0) \<and>
   entry two_room_problem 2 1 = Inr ''Math (Dr.C, R2)'' \<and>
   v4_decode two_room_problem two_room_schedule =
     Inr ([''Day/Period'', ''P1'', ''P2''],
          [[''Day 1'', ''AI (Dr.A, R1)'' @ [CHR 0x0A] @ ''Math (Dr.C, R2)'', ''ML (Dr.A, R1)'']])"
proof -
  have wf: "0 \<le> days demo_problem \<or> 0 \<le> slots_per_day demo_problem" by code_simp
  have cs: "course_indices demo_problem = [0, 1]" by code_simp
  have f0: "map_of (faculty demo_problem) (courses demo_problem ! 0) = Some ''Dr.A''"
    by code_simp
  have f1: "map_of (faculty demo_problem) (courses demo_problem ! 1) = Some ''Dr.B''"
    by code_simp
  have fac: "\<forall>c \<in> set (course_indices demo_problem).
               \<exists>f. map_of (faculty demo_problem) (courses demo_problem ! c) = Some f"
    unfolding cs using f0 f1 by simp
  have x: "lone_schedule (0, 1, 0)" by code_simp
  have r: "v4_decode demo_problem lone_schedule =
     Inr ([''Day/Period'', ''P1'', ''P2''], [[''Day 1'', ''Free'', ''AI (Dr.A, R1)'']])"
    by code_simp
  from v4_decode_projection [OF wf fac, of lone_schedule]
  obtain table where
    "v4_decode demo_problem lone_schedule = Inr (v4_headers demo_problem, table)"
    by blast
  with r have h: "v4_headers demo_problem = [''Day/Period'', ''P1'', ''P2'']" by simp
  have wf2: "0 \<le> days two_room_problem \<or> 0 \<le> slots_per_day two_room_problem"
    by code_simp
  have cs2: "course_indices two_room_problem = [0, 1, 2]" by code_simp
  have g0: "map_of (faculty two_room_problem) (courses two_room_problem ! 0) = Some ''Dr.A''"
    by code_simp
  have g1: "map_of (faculty two_room_problem) (courses two_room_problem ! 1) = Some ''Dr.A''"
    by code_simp
  have g2: "map_of (faculty two_room_problem) (courses two_room_problem ! 2) = Some ''Dr.C''"
    by code_simp
  have fac2: "\<forall>c \<in> set (course_indices two_room_problem).
               \<exists>f. map_of (faculty two_room_problem) (courses two_room_problem ! c) = Some f"
    unfolding cs2 using g0 g1 g2 by simp
  have x2: "two_room_schedule (0, 0, 0) \<and> two_room_schedule (2, 0, 1) \<and>
            two_room_schedule (1, 1, 0)" by code_simp
  have e2: "entry two_room_problem 2 1 = Inr ''Math (Dr.C, R2)''" by code_simp
  have h2: "v4_headers two_room_problem = [''Day/Period'', ''P1'', ''P2'']" by code_simp
  from v4_decode_projection [OF wf2 fac2, of two_room_schedule]
  obtain table2 where dec:
    "v4_decode two_room_problem two_room_schedule = Inr (v4_headers two_room_problem, table2)"
    by blast
  have r2: "v4_decode two_room_problem two_room_schedule =
     Inr ([''Day/Period'', ''P1'', ''P2''],
          [[''Day 1'', ''AI (Dr.A, R1)'' @ [CHR 0x0A] @ ''Math (Dr.C, R2)'', ''ML (Dr.A, R1)'']])"
    by code_simp
  from dec r2 have "table2 =
     [[''Day 1'', ''AI (Dr.A, R1)'' @ [CHR 0x0A] @ ''Math (Dr.C, R2)'', ''ML (Dr.A, R1)'']]"
    by simp
  with dec have r3: "v4_decode two_room_problem two_room_schedule =
     Inr ([''Day/Period'', ''P1'', ''P2''],
          [[''Day 1'', ''AI (Dr.A, R1)'' @ [CHR 0x0A] @ ''Math (Dr.C, R2)'', ''ML (Dr.A, R1)'']])"
    by (simp only: h2)
  from wf cs f0 f1 x h r wf2 cs2 g0 g1 g2 x2 e2 r3 show ?thesis by blast
qed

section \<open>Solver status and what is reported\<close>

lemma v4_decode_total:
  assumes "0 \<le> days P \<or> 0 \<le> slots_per_day P"
    and "\<forall>c \<in> set (course_indices P). \<exists>f. map_of (faculty P) (courses P ! c) = Some f"
  shows "\<exists>table. v4_decode P x = Inr table"
proof -
  from v4_timetable_cells [OF assms, of x]
  obtain g where g: "v4_timetable P x = Inr g" and len: "length g = nat (days P)"
    and rows: "\<forall>d < nat (days P). length (g ! d) = nat (slots_per_day P)"
    by blast
  from v4_table_data_Inr [OF refl len rows] g show ?thesis
    by (simp add: v4_decode_def)
qed

lemma v2_rows_total:
  assumes "\<forall>c \<in> set (course_indices P). \<exists>f. map_of (faculty P) (courses P ! c) = Some f"
  shows "\<exists>rows. v2_rows P x = Inr rows"
proof (cases "slots_per_day P = 0")
  case True
  then have "v2_true_cells P x = []"
    by (simp add: v2_true_cells_def time_slots_def total_slots_def)
  then show ?thesis by (simp add: v2_rows_def v2_timetable_def)
next
  case False
  have "\<forall>v \<in> set (v2_true_cells P x). \<exists>f. map_of (faculty P) (courses P ! fst v) = Some f"
    using assms by (auto simp: v2_true_cells_def)
  from v2_fold [OF False this, of "\<lambda>day period. []"]
  obtain tt where "fold_err (v2_place P) (v2_true_cells P x) (\<lambda>day period. []) = Inr tt"
    by blast
  then show ?thesis by (simp add: v2_rows_def v2_timetable_def)
qed

text \<open>
  Claim C2, as amended. The scripts surface two outcomes, not three. For every status other
  than \<open>OPTIMAL\<close> and \<open>FEASIBLE\<close> the output is the one message
  \<^verbatim>\<open>No feasible timetable found\<close>, and for no other status. With status \<open>OPTIMAL\<close> or
  \<open>FEASIBLE\<close> the output is the decoded timetable, for every instance whose courses all have
  a faculty entry and whose day and period counts are not both negative (on other
  instances the printing code can raise instead).
\<close>

theorem solver_status_outcomes:
  "(v4_output P status x = Inr No_feasible_timetable_found \<longleftrightarrow>
      status \<noteq> OPTIMAL \<and> status \<noteq> FEASIBLE) \<and>
   (v2_output P status x = Inr No_feasible_timetable_found \<longleftrightarrow>
      status \<noteq> OPTIMAL \<and> status \<noteq> FEASIBLE) \<and>
   ((0 \<le> days P \<or> 0 \<le> slots_per_day P) \<and>
    (\<forall>c \<in> set (course_indices P). \<exists>f. map_of (faculty P) (courses P ! c) = Some f) \<and>
    (status = OPTIMAL \<or> status = FEASIBLE) \<longrightarrow>
      (\<exists>table. v4_decode P x = Inr table \<and> v4_output P status x = Inr (Timetable table)) \<and>
      (\<exists>rows. v2_rows P x = Inr rows \<and>
              v2_output P status x = Inr (Timetable (v2_header, rows))))"
proof -
  have "and_then (v4_decode P x) (\<lambda>table. Inr (Timetable table))
        \<noteq> Inr No_feasible_timetable_found"
    by (cases "v4_decode P x") simp_all
  moreover have "and_then (v2_rows P x) (\<lambda>rows. Inr (Timetable (v2_header, rows)))
        \<noteq> Inr No_feasible_timetable_found"
    by (cases "v2_rows P x") simp_all
  ultimately have message:
    "(v4_output P status x = Inr No_feasible_timetable_found \<longleftrightarrow>
        status \<noteq> OPTIMAL \<and> status \<noteq> FEASIBLE) \<and>
     (v2_output P status x = Inr No_feasible_timetable_found \<longleftrightarrow>
        status \<noteq> OPTIMAL \<and> status \<noteq> FEASIBLE)"
    by (simp add: v4_output_def v2_output_def)
  have timetable:
    "(\<exists>table. v4_decode P x = Inr table \<and> v4_output P status x = Inr (Timetable table)) \<and>
     (\<exists>rows. v2_rows P x = Inr rows \<and>
             v2_output P status x = Inr (Timetable (v2_header, rows)))"
    if wf: "0 \<le> days P \<or> 0 \<le> slots_per_day P"
      and fac: "\<forall>c \<in> set (course_indices P). \<exists>f. map_of (faculty P) (courses P ! c) = Some f"
      and st: "status = OPTIMAL \<or> status = FEASIBLE"
  proof -
    from v4_decode_total [OF wf fac, of x] obtain table where t: "v4_decode P x = Inr table"
      by blast
    from v2_rows_total [OF fac, of x] obtain rows where r: "v2_rows P x = Inr rows"
      by blast
    from st have "v4_output P status x = Inr (Timetable table)"
      by (auto simp: v4_output_def t)
    moreover from st have "v2_output P status x = Inr (Timetable (v2_header, rows))"
      by (auto simp: v2_output_def r)
    ultimately show ?thesis using t r by blast
  qed
  from message timetable show ?thesis by blast
qed

theorem solver_status_outcomes_witness:
  "(0 \<le> days demo_problem \<or> 0 \<le> slots_per_day demo_problem) \<and>
   course_indices demo_problem = [0, 1] \<and>
   map_of (faculty demo_problem) (courses demo_problem ! 0) = Some ''Dr.A'' \<and>
   map_of (faculty demo_problem) (courses demo_problem ! 1) = Some ''Dr.B'' \<and>
   v4_output demo_problem FEASIBLE demo_schedule =
     Inr (Timetable ([''Day/Period'', ''P1'', ''P2''],
                     [[''Day 1'', ''ML (Dr.B, R1)'', ''AI (Dr.A, R1)'']])) \<and>
   v4_output demo_problem OPTIMAL demo_schedule =
     Inr (Timetable ([''Day/Period'', ''P1'', ''P2''],
                     [[''Day 1'', ''ML (Dr.B, R1)'', ''AI (Dr.A, R1)'']])) \<and>
   v4_output demo_problem INFEASIBLE demo_schedule = Inr No_feasible_timetable_found \<and>
   v4_output demo_problem UNKNOWN demo_schedule = Inr No_feasible_timetable_found \<and>
   v4_output demo_problem MODEL_INVALID demo_schedule = Inr No_feasible_timetable_found"
proof -
  have wf: "0 \<le> days demo_problem \<or> 0 \<le> slots_per_day demo_problem" by code_simp
  have cs: "course_indices demo_problem = [0, 1]" by code_simp
  have f0: "map_of (faculty demo_problem) (courses demo_problem ! 0) = Some ''Dr.A''"
    by code_simp
  have f1: "map_of (faculty demo_problem) (courses demo_problem ! 1) = Some ''Dr.B''"
    by code_simp
  have fac: "\<forall>c \<in> set (course_indices demo_problem).
               \<exists>f. map_of (faculty demo_problem) (courses demo_problem ! c) = Some f"
    unfolding cs using f0 f1 by simp
  have d: "v4_decode demo_problem demo_schedule =
     Inr ([''Day/Period'', ''P1'', ''P2''], [[''Day 1'', ''ML (Dr.B, R1)'', ''AI (Dr.A, R1)'']])"
    by code_simp
  from solver_status_outcomes [of demo_problem FEASIBLE demo_schedule] wf fac
  obtain t1 where "v4_decode demo_problem demo_schedule = Inr t1"
    "v4_output demo_problem FEASIBLE demo_schedule = Inr (Timetable t1)" by blast
  with d have a: "v4_output demo_problem FEASIBLE demo_schedule =
     Inr (Timetable ([''Day/Period'', ''P1'', ''P2''],
                     [[''Day 1'', ''ML (Dr.B, R1)'', ''AI (Dr.A, R1)'']]))" by simp
  from solver_status_outcomes [of demo_problem OPTIMAL demo_schedule] wf fac
  obtain t2 where "v4_decode demo_problem demo_schedule = Inr t2"
    "v4_output demo_problem OPTIMAL demo_schedule = Inr (Timetable t2)" by blast
  with d have b: "v4_output demo_problem OPTIMAL demo_schedule =
     Inr (Timetable ([''Day/Period'', ''P1'', ''P2''],
                     [[''Day 1'', ''ML (Dr.B, R1)'', ''AI (Dr.A, R1)'']]))" by simp
  from solver_status_outcomes [of demo_problem INFEASIBLE demo_schedule]
  have c: "v4_output demo_problem INFEASIBLE demo_schedule = Inr No_feasible_timetable_found"
    by simp
  from solver_status_outcomes [of demo_problem UNKNOWN demo_schedule]
  have e: "v4_output demo_problem UNKNOWN demo_schedule = Inr No_feasible_timetable_found"
    by simp
  from solver_status_outcomes [of demo_problem MODEL_INVALID demo_schedule]
  have f: "v4_output demo_problem MODEL_INVALID demo_schedule = Inr No_feasible_timetable_found"
    by simp
  from wf cs f0 f1 a b c e f show ?thesis by blast
qed

text \<open>
  A time limit that expires with no solution (status \<open>UNKNOWN\<close>) is reported exactly as a
  proven infeasibility (status \<open>INFEASIBLE\<close>).
\<close>

theorem timed_out_as_infeasible_counterexample:
  "v4_output demo_problem UNKNOWN demo_schedule =
   v4_output demo_problem INFEASIBLE demo_schedule"
  by (simp add: v4_output_def)

end
